theory Spec2Isabelle
  imports Main "HOL-Library.Word"
begin

section \<open>The operating-system interface used by basic\_archive.c\<close>

text \<open>
  \<^verbatim>\<open>contrib/basic_archive/basic_archive.c\<close> talks to the file system through
  \<^verbatim>\<open>stat\<close>, \<open>unlink\<close>, \<open>read\<close>, \<open>write\<close>, \<open>OpenTransientFile\<close>,
  \<open>CloseTransientFile\<close> and \<open>durable_rename\<close>. The file system is a finite map from path
  names to nodes; every call can also be made to fail by the environment, which is a
  function from the number of the call (the \<open>clock\<close> of the world) to an outcome.
  Each call appends one event, with its return value, to the \<open>trace\<close> of the world, and every
  \<^verbatim>\<open>ereport(WARNING, ...)\<close> appends its message to \<open>reports\<close>.

  Path names are plain keys of the map: there is no directory tree, and a name that extends
  the name of a regular file can be looked up, created and renamed like any other. Where a
  real file system refuses such a name (\<open>ENOTDIR\<close>), the environment can refuse it by
  injecting that error, so the runs of the model include those of a real file system. A C
  string is a \<open>string\<close> here and \<^verbatim>\<open>strlen\<close> its length.
\<close>

type_synonym byte = "8 word"
type_synonym path = string

datatype node = Reg "byte list" | Dir

datatype outcome = Proceed | Fail nat | Partial nat

type_synonym env = "nat \<Rightarrow> outcome"

datatype event =
    EvStat path int
  | EvUnlink path int
  | EvOpen path bool int
  | EvRead path int
  | EvWrite path nat int
  | EvClose path int
  | EvFlushData path int
  | EvFlushMeta path int
  | EvRename path path int
  | EvFlushDir path int

datatype warning =
    NotSpecified
  | PathTooLong
  | AlreadyExists path
  | CouldNotStat path nat
  | CouldNotUnlink path nat
  | CouldNotOpen path nat
  | CouldNotRead path nat
  | CouldNotWrite path nat
  | CouldNotClose path nat
  | CouldNotFsync path nat
  | CouldNotRename path path nat
  | DirectoryDoesNotExist

record world =
  files :: "path \<rightharpoonup> node"
  fds :: "int \<rightharpoonup> (path \<times> nat)"
  next_fd :: nat
  errno :: nat
  clock :: nat
  trace :: "event list"
  reports :: "warning list"

text \<open>The values of \<^verbatim>\<open>errno\<close> the program looks at, or that the model sets (Linux numbering).\<close>

definition ENOENT :: nat where "ENOENT = 2"
definition EBADF :: nat where "EBADF = 9"
definition EEXIST :: nat where "EEXIST = 17"
definition ENOTDIR :: nat where "ENOTDIR = 20"
definition EISDIR :: nat where "EISDIR = 21"
definition ENOSPC :: nat where "ENOSPC = 28"

definition syscall :: "event \<Rightarrow> world \<Rightarrow> world" where
  "syscall e w = w\<lparr>clock := Suc (clock w), trace := trace w @ [e]\<rparr>"

definition failing :: "event \<Rightarrow> nat \<Rightarrow> world \<Rightarrow> world" where
  "failing e err w = syscall e (w\<lparr>errno := err\<rparr>)"

definition ereport :: "warning \<Rightarrow> world \<Rightarrow> world" where
  "ereport m w = w\<lparr>reports := reports w @ [m]\<rparr>"

text \<open>An injected failure carries a non-zero error number.\<close>

definition injected :: "outcome \<Rightarrow> nat option" where
  "injected oc = (case oc of Fail e \<Rightarrow> if e = 0 then None else Some e | _ \<Rightarrow> None)"

text \<open>
  \<open>stat\<close> and \<open>unlink\<close> report \<open>ENOENT\<close> exactly when the path is absent, so the failures the
  environment can inject into them are the other ones.
\<close>

definition injected_other :: "outcome \<Rightarrow> nat option" where
  "injected_other oc = (case injected oc of Some e \<Rightarrow> if e = ENOENT then None else Some e | None \<Rightarrow> None)"

definition sys_stat :: "env \<Rightarrow> path \<Rightarrow> world \<Rightarrow> int \<times> bool \<times> world" where
  "sys_stat env p w =
     (case injected_other (env (clock w)) of
        Some e \<Rightarrow> (-1, False, failing (EvStat p (-1)) e w)
      | None \<Rightarrow>
          (case files w p of
             None \<Rightarrow> (-1, False, failing (EvStat p (-1)) ENOENT w)
           | Some n \<Rightarrow> (0, n = Dir, syscall (EvStat p 0) w)))"

definition sys_unlink :: "env \<Rightarrow> path \<Rightarrow> world \<Rightarrow> int \<times> world" where
  "sys_unlink env p w =
     (case injected_other (env (clock w)) of
        Some e \<Rightarrow> (-1, failing (EvUnlink p (-1)) e w)
      | None \<Rightarrow>
          (case files w p of
             None \<Rightarrow> (-1, failing (EvUnlink p (-1)) ENOENT w)
           | Some Dir \<Rightarrow> (-1, failing (EvUnlink p (-1)) EISDIR w)
           | Some (Reg c) \<Rightarrow> (0, syscall (EvUnlink p 0) (w\<lparr>files := (files w)(p := None)\<rparr>))))"

text \<open>The two flag combinations of the program: \<^verbatim>\<open>O_RDONLY | PG_BINARY\<close> and
  \<^verbatim>\<open>O_RDWR | O_CREAT | O_EXCL | PG_BINARY\<close>.\<close>

datatype oflags = O_RDONLY | O_RDWR_CREAT_EXCL

text \<open>
  Modelled from the spec: \<^verbatim>\<open>OpenTransientFile\<close> (of \<^verbatim>\<open>storage/fd.c\<close>) is not among the
  sources. The specification has the source opened for reading and the temporary path opened
  for writing with exclusive-create semantics: that open fails if the path exists. It is
  \<open>open\<close> with the given flags: a successful call enters the new descriptor, with its path
  and offset 0, in the table of open descriptors, and a failing call returns \<open>-1\<close> with
  \<open>errno\<close> set. A directory can be opened for reading.
\<close>

definition OpenTransientFile :: "env \<Rightarrow> path \<Rightarrow> oflags \<Rightarrow> world \<Rightarrow> int \<times> world" where
  "OpenTransientFile env p fl w =
     (let ex = (fl = O_RDWR_CREAT_EXCL); fd = int (next_fd w) in
      case injected (env (clock w)) of
        Some e \<Rightarrow> (-1, failing (EvOpen p ex (-1)) e w)
      | None \<Rightarrow>
          (if ex then
             (case files w p of
                Some n \<Rightarrow> (-1, failing (EvOpen p ex (-1)) EEXIST w)
              | None \<Rightarrow>
                  (fd, syscall (EvOpen p ex fd)
                         (w\<lparr>files := (files w)(p \<mapsto> Reg []),
                            fds := (fds w)(fd \<mapsto> (p, 0)),
                            next_fd := Suc (next_fd w)\<rparr>)))
           else
             (case files w p of
                None \<Rightarrow> (-1, failing (EvOpen p ex (-1)) ENOENT w)
              | Some n \<Rightarrow>
                  (fd, syscall (EvOpen p ex fd)
                         (w\<lparr>fds := (fds w)(fd \<mapsto> (p, 0)),
                            next_fd := Suc (next_fd w)\<rparr>)))))"

text \<open>
  Modelled from the spec: \<^verbatim>\<open>CloseTransientFile\<close> (of \<^verbatim>\<open>storage/fd.c\<close>) is not among the
  sources. The specification has each handle released by a close whose result the caller
  checks. It is \<open>close\<close>: the descriptor leaves the table whether or not the call reports
  an error.
\<close>

definition CloseTransientFile :: "env \<Rightarrow> int \<Rightarrow> world \<Rightarrow> int \<times> world" where
  "CloseTransientFile env fd w =
     (case fds w fd of
        None \<Rightarrow> (-1, failing (EvClose [] (-1)) EBADF w)
      | Some (p, off) \<Rightarrow>
          (case injected (env (clock w)) of
             Some e \<Rightarrow> (-1, failing (EvClose p (-1)) e (w\<lparr>fds := (fds w)(fd := None)\<rparr>))
           | None \<Rightarrow> (0, syscall (EvClose p 0) (w\<lparr>fds := (fds w)(fd := None)\<rparr>))))"

text \<open>
  \<open>read\<close> delivers between 1 and \<open>count\<close> of the bytes left after the offset (the
  environment may choose fewer than asked), and 0 only at the end of the file.
\<close>

definition granted :: "outcome \<Rightarrow> nat \<Rightarrow> nat" where
  "granted oc avail = (case oc of Partial k \<Rightarrow> if 1 \<le> k \<and> k \<le> avail then k else avail | _ \<Rightarrow> avail)"

definition sys_read :: "env \<Rightarrow> int \<Rightarrow> nat \<Rightarrow> world \<Rightarrow> int \<times> byte list \<times> world" where
  "sys_read env fd count w =
     (case fds w fd of
        None \<Rightarrow> (-1, [], failing (EvRead [] (-1)) EBADF w)
      | Some (p, off) \<Rightarrow>
          (case files w p of
             Some (Reg c) \<Rightarrow>
               (case injected (env (clock w)) of
                  Some e \<Rightarrow> (-1, [], failing (EvRead p (-1)) e w)
                | None \<Rightarrow>
                    (let n = granted (env (clock w)) (min count (length c - off)) in
                     (int n, take n (drop off c),
                      syscall (EvRead p (int n)) (w\<lparr>fds := (fds w)(fd \<mapsto> (p, off + n))\<rparr>))))
           | Some Dir \<Rightarrow> (-1, [], failing (EvRead p (-1)) EISDIR w)
           | None \<Rightarrow> (-1, [], failing (EvRead p (-1)) EBADF w)))"

text \<open>
  \<open>write\<close> stores the data at the offset of the descriptor. The environment can make it
  fail (\<open>-1\<close>, \<open>errno\<close> set) or transfer only the first \<open>k\<close> bytes (a short write, which
  leaves \<open>errno\<close> as it was).
\<close>

definition store_at :: "nat \<Rightarrow> byte list \<Rightarrow> byte list \<Rightarrow> byte list" where
  "store_at off d c = take off c @ d @ drop (off + length d) c"

definition sys_write :: "env \<Rightarrow> int \<Rightarrow> byte list \<Rightarrow> world \<Rightarrow> int \<times> world" where
  "sys_write env fd d w =
     (case fds w fd of
        None \<Rightarrow> (-1, failing (EvWrite [] (length d) (-1)) EBADF w)
      | Some (p, off) \<Rightarrow>
          (case files w p of
             Some (Reg c) \<Rightarrow>
               (case injected (env (clock w)) of
                  Some e \<Rightarrow> (-1, failing (EvWrite p (length d) (-1)) e w)
                | None \<Rightarrow>
                    (let d' = (case env (clock w) of
                                 Partial k \<Rightarrow> if k < length d then take k d else d
                               | _ \<Rightarrow> d) in
                     (int (length d'),
                      syscall (EvWrite p (length d) (int (length d')))
                        (w\<lparr>files := (files w)(p \<mapsto> Reg (store_at off d' c)),
                           fds := (fds w)(fd \<mapsto> (p, off + length d'))\<rparr>))))
           | Some Dir \<Rightarrow> (-1, failing (EvWrite p (length d) (-1)) EISDIR w)
           | None \<Rightarrow> (-1, failing (EvWrite p (length d) (-1)) EBADF w)))"


section \<open>durable\_rename\<close>

text \<open>
  The calls it is made of: a flush of a file's data or of its metadata (which fails on a
  missing file), a flush of a directory, and \<open>rename\<close>, which replaces the target
  atomically, does nothing when both names are the same, and refuses to put a regular file
  in the place of a directory. \<open>parent_directory\<close> is the path up to the last separator.
\<close>

definition parent_directory :: "path \<Rightarrow> path" where
  "parent_directory p = rev (drop 1 (dropWhile (\<lambda>c. c \<noteq> CHR ''/'') (rev p)))"

definition sys_flush :: "env \<Rightarrow> (path \<Rightarrow> int \<Rightarrow> event) \<Rightarrow> path \<Rightarrow> world \<Rightarrow> int \<times> world" where
  "sys_flush env ev p w =
     (case injected (env (clock w)) of
        Some e \<Rightarrow> (-1, failing (ev p (-1)) e w)
      | None \<Rightarrow>
          (case files w p of
             None \<Rightarrow> (-1, failing (ev p (-1)) ENOENT w)
           | Some n \<Rightarrow> (0, syscall (ev p 0) w)))"

definition sys_flush_dir :: "env \<Rightarrow> path \<Rightarrow> world \<Rightarrow> int \<times> world" where
  "sys_flush_dir env p w =
     (case injected (env (clock w)) of
        Some e \<Rightarrow> (-1, failing (EvFlushDir p (-1)) e w)
      | None \<Rightarrow> (0, syscall (EvFlushDir p 0) w))"

definition sys_rename :: "env \<Rightarrow> path \<Rightarrow> path \<Rightarrow> world \<Rightarrow> int \<times> world" where
  "sys_rename env a b w =
     (case injected (env (clock w)) of
        Some e \<Rightarrow> (-1, failing (EvRename a b (-1)) e w)
      | None \<Rightarrow>
          (case files w a of
             None \<Rightarrow> (-1, failing (EvRename a b (-1)) ENOENT w)
           | Some n \<Rightarrow>
               if a = b then (0, syscall (EvRename a b 0) w)
               else if files w b = Some Dir \<and> n \<noteq> Dir then (-1, failing (EvRename a b (-1)) EISDIR w)
               else (0, syscall (EvRename a b 0) (w\<lparr>files := (files w)(a := None, b \<mapsto> n)\<rparr>))))"

text \<open>
  Modelled from the spec: \<^verbatim>\<open>durable_rename\<close> (of \<^verbatim>\<open>storage/fd.c\<close>) is not among the
  sources. The specification describes it as one logical operation: flush the temporary
  file's contents and its metadata to stable storage, then atomically rename it to the
  final destination path, then flush the containing directory's metadata; it reports
  success (0) only after all of that succeeded, and a failing step stops it with \<open>-1\<close>
  and a warning.
\<close>

definition durable_rename :: "env \<Rightarrow> path \<Rightarrow> path \<Rightarrow> world \<Rightarrow> int \<times> world" where
  "durable_rename env oldfile newfile w =
     (case sys_flush env EvFlushData oldfile w of (r1, w1) \<Rightarrow>
        if r1 \<noteq> 0 then (-1, ereport (CouldNotFsync oldfile (errno w1)) w1)
        else case sys_flush env EvFlushMeta oldfile w1 of (r2, w2) \<Rightarrow>
          if r2 \<noteq> 0 then (-1, ereport (CouldNotFsync oldfile (errno w2)) w2)
          else case sys_rename env oldfile newfile w2 of (r3, w3) \<Rightarrow>
            if r3 \<noteq> 0 then (-1, ereport (CouldNotRename oldfile newfile (errno w3)) w3)
            else case sys_flush_dir env (parent_directory newfile) w3 of (r4, w4) \<Rightarrow>
              if r4 \<noteq> 0 then (-1, ereport (CouldNotFsync (parent_directory newfile) (errno w4)) w4)
              else (0, w4))"

section \<open>basic\_archive.c\<close>

text \<open>
  \<^verbatim>\<open>MAXPGPATH\<close> comes from \<^verbatim>\<open>pg_config_manual.h\<close>, which is not among the sources; 1024 is
  its value there. \<^verbatim>\<open>TEMP_FILE_NAME\<close> and \<^verbatim>\<open>COPY_BUF_SIZE\<close> are defined in the file.
\<close>

definition MAXPGPATH :: nat where "MAXPGPATH = 1024"
definition TEMP_FILE_NAME :: string where "TEMP_FILE_NAME = ''archtemp''"
definition COPY_BUF_SIZE :: nat where "COPY_BUF_SIZE = 64 * 1024"

text \<open>\<^verbatim>\<open>snprintf(buf, sz, "%s/%s", a, b)\<close> keeps at most \<open>sz - 1\<close> characters.\<close>

definition snprintf_path :: "nat \<Rightarrow> string \<Rightarrow> string \<Rightarrow> string" where
  "snprintf_path sz a b = take (sz - 1) (a @ ''/'' @ b)"

text \<open>
  The \<^verbatim>\<open>for (;;)\<close> loop of \<^verbatim>\<open>copy_file\<close>. It yields \<open>False\<close> where the C code returns
  \<open>false\<close> from inside the loop and \<open>True\<close> where it leaves the loop by \<open>break\<close>. The loop
  ends when \<open>read\<close> returns 0, which nothing in the loop itself guarantees (a destination
  descriptor on the file being read keeps it growing), so the result is an option.
\<close>

partial_function (option) copy_loop ::
  "env \<Rightarrow> path \<Rightarrow> path \<Rightarrow> int \<Rightarrow> int \<Rightarrow> world \<Rightarrow> (bool \<times> world) option" where
  "copy_loop env src dst srcfd dstfd w =
     (case sys_read env srcfd COPY_BUF_SIZE w of (nbytes, buf, w1) \<Rightarrow>
        if nbytes < 0 then Some (False, ereport (CouldNotRead src (errno w1)) w1)
        else if nbytes = 0 then Some (True, w1)
        else
          (case sys_write env dstfd (take (nat nbytes) buf) (w1\<lparr>errno := 0\<rparr>) of (written, w2) \<Rightarrow>
             if written \<noteq> nbytes then
               (let w3 = (if errno w2 = 0 then w2\<lparr>errno := ENOSPC\<rparr> else w2) in
                Some (False, ereport (CouldNotWrite dst (errno w3)) w3))
             else copy_loop env src dst srcfd dstfd w2))"

definition copy_file :: "env \<Rightarrow> path \<Rightarrow> path \<Rightarrow> world \<Rightarrow> (bool \<times> world) option" where
  "copy_file env src dst w =
     (case OpenTransientFile env src O_RDONLY w of (srcfd, w1) \<Rightarrow>
        if srcfd < 0 then Some (False, ereport (CouldNotOpen src (errno w1)) w1)
        else
          (case OpenTransientFile env dst O_RDWR_CREAT_EXCL w1 of (dstfd, w2) \<Rightarrow>
             if dstfd < 0 then Some (False, ereport (CouldNotOpen dst (errno w2)) w2)
             else
               (case copy_loop env src dst srcfd dstfd w2 of
                  None \<Rightarrow> None
                | Some (completed, w3) \<Rightarrow>
                    if \<not> completed then Some (False, w3)
                    else
                      (case CloseTransientFile env dstfd w3 of (r1, w4) \<Rightarrow>
                         if r1 \<noteq> 0 then Some (False, ereport (CouldNotClose dst (errno w4)) w4)
                         else
                           (case CloseTransientFile env srcfd w4 of (r2, w5) \<Rightarrow>
                              if r2 \<noteq> 0 then Some (False, ereport (CouldNotClose src (errno w5)) w5)
                              else Some (True, w5))))))"

text \<open>
  \<^verbatim>\<open>_PG_archive(path, file)\<close>. The setting \<^verbatim>\<open>archive_directory\<close> is a static variable of
  the module (\<open>None\<close> is \<open>NULL\<close>); it is a parameter here. \<open>palloc\<close> and \<open>pfree\<close> of the copy
  buffer have no effect on the file system and are left out.
\<close>

definition destination_of :: "path \<Rightarrow> string \<Rightarrow> path" where
  "destination_of path file = snprintf_path MAXPGPATH path file"

definition temp_of :: "path \<Rightarrow> path" where
  "temp_of path = snprintf_path MAXPGPATH path TEMP_FILE_NAME"

definition path_too_long :: "path \<Rightarrow> string \<Rightarrow> bool" where
  "path_too_long path file \<longleftrightarrow>
     length path + max (length file) (length TEMP_FILE_NAME) + 2 \<ge> MAXPGPATH"

definition PG_archive :: "env \<Rightarrow> string option \<Rightarrow> path \<Rightarrow> string \<Rightarrow> world \<Rightarrow> (bool \<times> world) option" where
  "PG_archive env archive_directory path file w =
     (if archive_directory = None \<or> archive_directory = Some [] then
        Some (False, ereport NotSpecified w)
      else if path_too_long path file then
        Some (False, ereport PathTooLong w)
      else
        (let destination = destination_of path file; temp = temp_of path in
         case sys_stat env destination w of (r1, isdir, w1) \<Rightarrow>
           if r1 = 0 then Some (False, ereport (AlreadyExists destination) w1)
           else if errno w1 \<noteq> ENOENT then Some (False, ereport (CouldNotStat destination (errno w1)) w1)
           else
             (case sys_unlink env temp w1 of (r2, w2) \<Rightarrow>
                if r2 \<noteq> 0 \<and> errno w2 \<noteq> ENOENT then
                  Some (False, ereport (CouldNotUnlink temp (errno w2)) w2)
                else
                  (case copy_file env path temp w2 of
                     None \<Rightarrow> None
                   | Some (copied, w3) \<Rightarrow>
                       if \<not> copied then Some (False, w3)
                       else
                         (case durable_rename env temp destination w3 of (r3, w4) \<Rightarrow>
                            Some (r3 = 0, w4))))))"

text \<open>
  \<^verbatim>\<open>check_archive_directory(newval, extra, source)\<close>, the check hook of the setting.
  \<^verbatim>\<open>GUC_check_errdetail\<close> is recorded as a report.
\<close>

definition check_archive_directory :: "env \<Rightarrow> string option \<Rightarrow> world \<Rightarrow> bool \<times> world" where
  "check_archive_directory env newval w =
     (case newval of
        None \<Rightarrow> (True, w)
      | Some v \<Rightarrow>
          if v = [] then (True, w)
          else
            (case sys_stat env v w of (r, isdir, w1) \<Rightarrow>
               if r \<noteq> 0 \<or> \<not> isdir then (False, ereport DirectoryDoesNotExist w1)
               else (True, w1)))"

section \<open>Observations and predicates used in the statements\<close>

text \<open>What a run of \<open>PG_archive\<close> leaves behind, read off its result.\<close>

definition succeeded :: "(bool \<times> world) option \<Rightarrow> bool" where
  "succeeded r = (case r of Some (ok, w') \<Rightarrow> ok | None \<Rightarrow> False)"

definition failed :: "(bool \<times> world) option \<Rightarrow> bool" where
  "failed r = (case r of Some (ok, w') \<Rightarrow> \<not> ok | None \<Rightarrow> False)"

definition file_after :: "(bool \<times> world) option \<Rightarrow> path \<Rightarrow> node option" where
  "file_after r p = (case r of Some (ok, w') \<Rightarrow> files w' p | None \<Rightarrow> None)"

definition fd_after :: "(bool \<times> world) option \<Rightarrow> int \<Rightarrow> (path \<times> nat) option" where
  "fd_after r fd = (case r of Some (ok, w') \<Rightarrow> fds w' fd | None \<Rightarrow> None)"

definition trace_after :: "(bool \<times> world) option \<Rightarrow> event list" where
  "trace_after r = (case r of Some (ok, w') \<Rightarrow> trace w' | None \<Rightarrow> [])"

definition reports_after :: "(bool \<times> world) option \<Rightarrow> warning list" where
  "reports_after r = (case r of Some (ok, w') \<Rightarrow> reports w' | None \<Rightarrow> [])"

text \<open>Environments for concrete runs: no failure at all, or one chosen outcome at call \<open>k\<close>.\<close>

definition no_faults :: env where
  "no_faults = (\<lambda>n. Proceed)"

definition fault_at :: "nat \<Rightarrow> outcome \<Rightarrow> env" where
  "fault_at k oc = (\<lambda>n. if n = k then oc else Proceed)"

text \<open>A world with one regular file and no open descriptor.\<close>

definition one_file :: "path \<Rightarrow> byte list \<Rightarrow> world" where
  "one_file p c = \<lparr>files = [p \<mapsto> Reg c], fds = Map.empty, next_fd = 3, errno = 0, clock = 0,
                    trace = [], reports = []\<rparr>"

definition two_files :: "path \<Rightarrow> byte list \<Rightarrow> path \<Rightarrow> byte list \<Rightarrow> world" where
  "two_files p c q d = \<lparr>files = [p \<mapsto> Reg c, q \<mapsto> Reg d], fds = Map.empty, next_fd = 3, errno = 0,
                        clock = 0, trace = [], reports = []\<rparr>"

definition with_dir :: "path \<Rightarrow> world \<Rightarrow> world" where
  "with_dir p w = w\<lparr>files := (files w)(p \<mapsto> Dir)\<rparr>"

definition hello_world :: "byte list" where
  "hello_world = [104, 101, 108, 108, 111, 32, 119, 111, 114, 108, 100]"

text \<open>Classes of events and of reports.\<close>

fun rw_event :: "path \<Rightarrow> path \<Rightarrow> event \<Rightarrow> bool" where
  "rw_event src dst (EvRead p r) = (p = src)"
| "rw_event src dst (EvWrite p n r) = (p = dst)"
| "rw_event src dst _ = False"

fun short_write :: "event \<Rightarrow> bool" where
  "short_write (EvWrite p n r) = (r \<noteq> int n)"
| "short_write _ = False"

fun returned :: "event \<Rightarrow> int" where
  "returned (EvStat p r) = r"
| "returned (EvUnlink p r) = r"
| "returned (EvOpen p ex r) = r"
| "returned (EvRead p r) = r"
| "returned (EvWrite p n r) = r"
| "returned (EvClose p r) = r"
| "returned (EvFlushData p r) = r"
| "returned (EvFlushMeta p r) = r"
| "returned (EvRename p q r) = r"
| "returned (EvFlushDir p r) = r"

definition loop_post ::
  "path \<Rightarrow> path \<Rightarrow> int \<Rightarrow> int \<Rightarrow> byte list \<Rightarrow> nat \<Rightarrow> byte list \<Rightarrow> world \<Rightarrow> bool \<Rightarrow> world \<Rightarrow> bool" where
  "loop_post src dst srcfd dstfd c so d w ok w' \<longleftrightarrow>
     (\<exists>x y. drop so c = x @ y \<and> (ok \<longrightarrow> y = []) \<and> files w' = (files w)(dst \<mapsto> Reg (d @ x))) \<and>
     (\<exists>a b. fds w' = (fds w)(srcfd \<mapsto> (src, a), dstfd \<mapsto> (dst, b))) \<and>
     next_fd w' = next_fd w \<and>
     (\<exists>evs. trace w' = trace w @ evs \<and> evs \<noteq> [] \<and> (\<forall>e\<in>set evs. rw_event src dst e) \<and>
            (\<forall>e\<in>set (butlast evs). \<not> short_write e) \<and>
            (short_write (last evs) \<longrightarrow>
               \<not> ok \<and> reports w' = reports w @ [CouldNotWrite dst (errno w')] \<and> errno w' \<noteq> 0 \<and>
               (0 \<le> returned (last evs) \<longrightarrow> errno w' = ENOSPC))) \<and>
     (if ok then reports w' = reports w
      else \<exists>e. reports w' = reports w @ [CouldNotRead src e] \<or> reports w' = reports w @ [CouldNotWrite dst e])"

fun copy_event :: "path \<Rightarrow> path \<Rightarrow> event \<Rightarrow> bool" where
  "copy_event src dst (EvOpen p ex r) = ((p = src \<and> \<not> ex) \<or> (p = dst \<and> ex))"
| "copy_event src dst (EvRead p r) = (p = src)"
| "copy_event src dst (EvWrite p n r) = (p = dst)"
| "copy_event src dst (EvClose p r) = (p = src \<or> p = dst)"
| "copy_event src dst _ = False"

fun copy_failure :: "path \<Rightarrow> path \<Rightarrow> warning \<Rightarrow> bool" where
  "copy_failure src dst (CouldNotOpen p e) = (p = src \<or> p = dst)"
| "copy_failure src dst (CouldNotRead p e) = (p = src)"
| "copy_failure src dst (CouldNotWrite p e) = (p = dst)"
| "copy_failure src dst (CouldNotClose p e) = (p = src \<or> p = dst)"
| "copy_failure src dst _ = False"

definition copy_post :: "path \<Rightarrow> path \<Rightarrow> world \<Rightarrow> bool \<Rightarrow> world \<Rightarrow> bool" where
  "copy_post src dst w ok w' \<longleftrightarrow>
     (\<forall>p. p \<noteq> dst \<longrightarrow> files w' p = files w p) \<and>
     (files w' dst = files w dst \<or> (\<exists>x. files w' dst = Some (Reg x))) \<and>
     (\<exists>evs. trace w' = trace w @ evs \<and> (\<exists>r evs'. evs = EvOpen src False r # evs') \<and>
            (\<forall>e\<in>set evs. copy_event src dst e) \<and>
            (\<forall>e\<in>set (butlast evs). \<not> short_write e) \<and>
            (short_write (last evs) \<longrightarrow>
               \<not> ok \<and> reports w' = reports w @ [CouldNotWrite dst (errno w')] \<and> errno w' \<noteq> 0 \<and>
               (0 \<le> returned (last evs) \<longrightarrow> errno w' = ENOSPC)) \<and>
            (ok \<longrightarrow> (\<exists>rw. evs = [EvOpen src False (int (next_fd w)), EvOpen dst True (int (Suc (next_fd w)))]
                               @ rw @ [EvClose dst 0, EvClose src 0] \<and>
                           (\<forall>e\<in>set rw. rw_event src dst e \<and> \<not> short_write e)))) \<and>
     (if ok then reports w' = reports w \<and> src \<noteq> dst \<and> files w dst = None \<and>
                 (\<exists>c. files w src = Some (Reg c) \<and> files w' dst = Some (Reg c)) \<and>
                 fds w' (int (next_fd w)) = None \<and> fds w' (int (Suc (next_fd w))) = None
      else \<exists>m. reports w' = reports w @ [m] \<and> copy_failure src dst m)"

definition renamed :: "path \<Rightarrow> path \<Rightarrow> node \<Rightarrow> (path \<rightharpoonup> node) \<Rightarrow> (path \<rightharpoonup> node)" where
  "renamed a b n fs = (if a = b then fs else fs(a := None, b \<mapsto> n))"

definition cleared :: "path \<Rightarrow> path \<Rightarrow> world \<Rightarrow> world \<Rightarrow> bool" where
  "cleared dest temp w w2 \<longleftrightarrow>
     files w2 = (files w)(temp := None) \<and> files w temp \<noteq> Some Dir \<and>
     (\<exists>r. trace w2 = trace w @ [EvStat dest (-1), EvUnlink temp r]) \<and>
     reports w2 = reports w \<and> next_fd w2 = next_fd w \<and> fds w2 = fds w"

text \<open>
  The error, other than ``does not exist'', with which the removal of \<open>p\<close> fails when it is
  the second call of a run started in \<open>w\<close>: one injected by the environment, or \<open>EISDIR\<close>
  for a directory.
\<close>

definition unlink_refusal :: "env \<Rightarrow> path \<Rightarrow> world \<Rightarrow> nat option" where
  "unlink_refusal env p w =
     (case injected_other (env (Suc (clock w))) of
        Some e \<Rightarrow> Some e
      | None \<Rightarrow> if files w p = Some Dir then Some EISDIR else None)"

text \<open>
  Events that create or fill the file at \<open>p\<close> directly, rename events, and the events of
  the commit phase.
\<close>

fun writes_directly :: "path \<Rightarrow> event \<Rightarrow> bool" where
  "writes_directly p (EvOpen q ex r) = (ex \<and> q = p)"
| "writes_directly p (EvWrite q n r) = (q = p)"
| "writes_directly p _ = False"

fun is_rename :: "event \<Rightarrow> bool" where
  "is_rename (EvRename a b r) = True"
| "is_rename _ = False"

fun commit_event :: "event \<Rightarrow> bool" where
  "commit_event (EvFlushData p r) = True"
| "commit_event (EvFlushMeta p r) = True"
| "commit_event (EvRename a b r) = True"
| "commit_event (EvFlushDir p r) = True"
| "commit_event _ = False"

text \<open>
  The reports of a failed transfer: an open, read, write or close of the copy phase, or the
  rename itself.
\<close>

fun transfer_failure :: "path \<Rightarrow> path \<Rightarrow> path \<Rightarrow> warning \<Rightarrow> bool" where
  "transfer_failure src temp dest (CouldNotOpen p e) = (p = src \<or> p = temp)"
| "transfer_failure src temp dest (CouldNotRead p e) = (p = src)"
| "transfer_failure src temp dest (CouldNotWrite p e) = (p = temp)"
| "transfer_failure src temp dest (CouldNotClose p e) = (p = src \<or> p = temp)"
| "transfer_failure src temp dest (CouldNotRename a b e) = (a = temp \<and> b = dest)"
| "transfer_failure src temp dest _ = False"

definition world_after :: "(bool \<times> world) option \<Rightarrow> world \<Rightarrow> world" where
  "world_after r w = (case r of Some (ok, w') \<Rightarrow> w' | None \<Rightarrow> w)"

section \<open>pg\_popcount\_avx512.c\<close>

text \<open>The number of 1-bits of a natural number, and of a sequence of bytes.\<close>

fun popcnt :: "nat \<Rightarrow> nat" where
  "popcnt n = (if n = 0 then 0 else n mod 2 + popcnt (n div 2))"

declare popcnt.simps [simp del]

definition popcount_bytes :: "byte list \<Rightarrow> nat" where
  "popcount_bytes bs = sum_list (map (\<lambda>b. popcnt (unat b)) bs)"

text \<open>
  A 512-bit register is its eight 64-bit lanes, each a natural number below \<open>2 ^ 64\<close>.
  \<^verbatim>\<open>_mm512_loadu_si512\<close> reads 64 bytes, eight little-endian lanes of eight bytes;
  \<^verbatim>\<open>_mm512_popcnt_epi64\<close> counts the bits of each lane; \<^verbatim>\<open>_mm512_add_epi64\<close> adds lane by
  lane, modulo \<open>2 ^ 64\<close>; \<^verbatim>\<open>_mm512_reduce_add_epi64\<close> adds the lanes up, modulo \<open>2 ^ 64\<close>.
\<close>

fun le_value :: "byte list \<Rightarrow> nat" where
  "le_value [] = 0"
| "le_value (b # bs) = unat b + 256 * le_value bs"

fun lanes_of :: "nat \<Rightarrow> byte list \<Rightarrow> nat list" where
  "lanes_of 0 bs = []"
| "lanes_of (Suc n) bs = le_value (take 8 bs) # lanes_of n (drop 8 bs)"

definition mm512_setzero_si512 :: "nat list" where
  "mm512_setzero_si512 = replicate 8 0"

definition mm512_loadu_si512 :: "byte list \<Rightarrow> nat list" where
  "mm512_loadu_si512 bs = lanes_of 8 (take 64 bs)"

definition mm512_popcnt_epi64 :: "nat list \<Rightarrow> nat list" where
  "mm512_popcnt_epi64 v = map popcnt v"

definition mm512_add_epi64 :: "nat list \<Rightarrow> nat list \<Rightarrow> nat list" where
  "mm512_add_epi64 a b = map2 (\<lambda>x y. (x + y) mod 2 ^ 64) a b"

definition mm512_reduce_add_epi64 :: "nat list \<Rightarrow> nat" where
  "mm512_reduce_add_epi64 a = sum_list a mod 2 ^ 64"

text \<open>
  The loop of \<^verbatim>\<open>pg_popcount_avx512\<close>. \<open>bytes\<close> is an \<^verbatim>\<open>int\<close>; the test
  \<^verbatim>\<open>bytes >= sizeof(__m512i)\<close> compares it as a \<^verbatim>\<open>size_t\<close>, so that it holds for a negative
  \<open>bytes\<close> as well, and \<^verbatim>\<open>bytes -= sizeof(__m512i)\<close> brings the difference back to 32 bits.
  A load that runs over the end of the buffer has no defined result: \<open>None\<close>.
\<close>

definition to_int32 :: "int \<Rightarrow> int" where
  "to_int32 x = (x + 2 ^ 31) mod 2 ^ 32 - 2 ^ 31"

function avx512_loop :: "byte list \<Rightarrow> int \<Rightarrow> nat list \<Rightarrow> (byte list \<times> int \<times> nat list) option" where
  "avx512_loop buf bytes accum =
     (if bytes < 0 \<or> 64 \<le> bytes then
        (if length buf < 64 then None
         else avx512_loop (drop 64 buf) (to_int32 (bytes - 64))
                (mm512_add_epi64 accum (mm512_popcnt_epi64 (mm512_loadu_si512 buf))))
      else Some (buf, bytes, accum))"
  by pat_completeness auto
termination
  by (relation "measure (\<lambda>(buf, bytes, accum). length buf)") auto

declare avx512_loop.simps [simp del]

text \<open>
  \<^verbatim>\<open>pg_popcount_fast\<close> (of \<^verbatim>\<open>pg_bitutils.c\<close>) is not among the sources; it is a parameter of
  \<open>pg_popcount_avx512\<close>. \<open>scalar_popcount\<close> is the reference it is compared with: the bits
  of the first \<open>bytes\<close> bytes, counted byte by byte. The result is a \<^verbatim>\<open>uint64\<close>.
\<close>

definition scalar_popcount :: "byte list \<Rightarrow> int \<Rightarrow> nat" where
  "scalar_popcount buf bytes = popcount_bytes (take (nat bytes) buf)"

definition pg_popcount_avx512 :: "(byte list \<Rightarrow> int \<Rightarrow> nat) \<Rightarrow> byte list \<Rightarrow> int \<Rightarrow> nat option" where
  "pg_popcount_avx512 pg_popcount_fast buf bytes =
     (case avx512_loop buf bytes mm512_setzero_si512 of
        None \<Rightarrow> None
      | Some (buf', bytes', accum) \<Rightarrow>
          Some ((mm512_reduce_add_epi64 accum + pg_popcount_fast buf' bytes') mod 2 ^ 64))"

section \<open>Properties of the model\<close>

lemma syscall_fields [simp]:
  "files (syscall e w) = files w" "fds (syscall e w) = fds w" "next_fd (syscall e w) = next_fd w"
  "errno (syscall e w) = errno w" "clock (syscall e w) = Suc (clock w)"
  "trace (syscall e w) = trace w @ [e]" "reports (syscall e w) = reports w"
  by (simp_all add: syscall_def)

lemma failing_fields [simp]:
  "files (failing e err w) = files w" "fds (failing e err w) = fds w" "next_fd (failing e err w) = next_fd w"
  "errno (failing e err w) = err" "clock (failing e err w) = Suc (clock w)"
  "trace (failing e err w) = trace w @ [e]" "reports (failing e err w) = reports w"
  by (simp_all add: failing_def)

lemma ereport_fields [simp]:
  "files (ereport m w) = files w" "fds (ereport m w) = fds w" "next_fd (ereport m w) = next_fd w"
  "errno (ereport m w) = errno w" "clock (ereport m w) = clock w"
  "trace (ereport m w) = trace w" "reports (ereport m w) = reports w @ [m]"
  by (simp_all add: ereport_def)

lemma injected_nonzero: "injected oc = Some e \<Longrightarrow> e \<noteq> 0"
  by (auto simp: injected_def split: outcome.splits if_splits)

lemma granted_le: "granted oc a \<le> a"
  by (simp add: granted_def split: outcome.splits)

lemma granted_pos: "0 < a \<Longrightarrow> 0 < granted oc a"
  by (simp add: granted_def split: outcome.splits)

lemma store_at_end [simp]: "store_at (length d) x d = d @ x"
  by (simp add: store_at_def)

lemma loop_postI:
  assumes "drop so c = x @ y" "ok \<longrightarrow> y = []" "files w' = (files w)(dst \<mapsto> Reg (d @ x))"
    and "fds w' = (fds w)(srcfd \<mapsto> (src, a), dstfd \<mapsto> (dst, b))"
    and "next_fd w' = next_fd w"
    and "trace w' = trace w @ evs" "evs \<noteq> []" "\<forall>e\<in>set evs. rw_event src dst e"
    and "\<forall>e\<in>set (butlast evs). \<not> short_write e"
    and "short_write (last evs) \<longrightarrow>
           \<not> ok \<and> reports w' = reports w @ [CouldNotWrite dst (errno w')] \<and> errno w' \<noteq> 0 \<and>
           (0 \<le> returned (last evs) \<longrightarrow> errno w' = ENOSPC)"
    and "if ok then reports w' = reports w
         else \<exists>e. reports w' = reports w @ [CouldNotRead src e] \<or> reports w' = reports w @ [CouldNotWrite dst e]"
  shows "loop_post src dst srcfd dstfd c so d w ok w'"
  unfolding loop_post_def using assms by blast

lemma copy_loop_total:
  assumes "src \<noteq> dst" "srcfd \<noteq> dstfd"
    and "fds w srcfd = Some (src, so)" "fds w dstfd = Some (dst, length d)"
    and "files w src = Some (Reg c)" "files w dst = Some (Reg d)"
  shows "\<exists>ok w'. copy_loop env src dst srcfd dstfd w = Some (ok, w') \<and>
           loop_post src dst srcfd dstfd c so d w ok w'"
  using assms
proof (induction "length c - so" arbitrary: w so d rule: less_induct)
  case less
  note fs = less.prems(3) and fd = less.prems(4) and cs = less.prems(5) and cd = less.prems(6)
  note ne = less.prems(1) and nfd = less.prems(2)
  have idem: "(files w)(dst \<mapsto> Reg d) = files w" "(fds w)(srcfd \<mapsto> (src, so)) = fds w"
    "(fds w)(dstfd \<mapsto> (dst, length d)) = fds w"
    "\<And>a. (fds w)(srcfd \<mapsto> (src, a), dstfd \<mapsto> (dst, length d)) = (fds w)(srcfd \<mapsto> (src, a))"
    using fs fd cd nfd by (auto simp: fun_upd_idem fun_eq_iff)
  show ?case
  proof (cases "injected (env (clock w))")
    case (Some e)
    define w' where "w' = ereport (CouldNotRead src e) (failing (EvRead src (-1)) e w)"
    have "copy_loop env src dst srcfd dstfd w = Some (False, w')"
      by (subst copy_loop.simps) (simp add: sys_read_def fs cs Some w'_def)
    moreover have "loop_post src dst srcfd dstfd c so d w False w'"
      by (rule loop_postI[where x="[]" and y="drop so c" and a=so and b="length d" and evs="[EvRead src (-1)]"])
         (simp_all add: w'_def idem)
    ultimately show ?thesis by blast
  next
    case None
    define n where "n = granted (env (clock w)) (min COPY_BUF_SIZE (length c - so))"
    define w1 where "w1 = syscall (EvRead src (int n)) (w\<lparr>fds := (fds w)(srcfd \<mapsto> (src, so + n))\<rparr>)"
    have rd: "sys_read env srcfd COPY_BUF_SIZE w = (int n, take n (drop so c), w1)"
      by (simp add: sys_read_def fs cs None n_def w1_def Let_def)
    have nle: "n \<le> length c - so"
      unfolding n_def using granted_le[of "env (clock w)" "min COPY_BUF_SIZE (length c - so)"] by simp
    show ?thesis
    proof (cases "n = 0")
      case True
      have "length c - so = 0"
      proof (rule ccontr)
        assume "length c - so \<noteq> 0"
        then have "0 < min COPY_BUF_SIZE (length c - so)" by (simp add: COPY_BUF_SIZE_def)
        from granted_pos[OF this, of "env (clock w)"] True show False by (simp add: n_def)
      qed
      then have dr: "drop so c = []" by simp
      have "copy_loop env src dst srcfd dstfd w = Some (True, w1)"
        by (subst copy_loop.simps) (simp add: rd True)
      moreover have "loop_post src dst srcfd dstfd c so d w True w1"
        by (rule loop_postI[where x="[]" and y="[]" and a=so and b="length d" and evs="[EvRead src 0]"])
           (simp_all add: w1_def idem dr True)
      ultimately show ?thesis by blast
    next
      case False
      define buf where "buf = take n (drop so c)"
      have lbuf: "length buf = n" using nle by (simp add: buf_def)
      define w1z where "w1z = w1\<lparr>errno := 0\<rparr>"
      have w1z: "fds w1z dstfd = Some (dst, length d)" "files w1z dst = Some (Reg d)"
        "clock w1z = clock w1"
        using nfd fd cd by (simp_all add: w1z_def w1_def)
      have w1zs: "fds w1z = (fds w)(srcfd \<mapsto> (src, so + n))" "files w1z = files w"
        "trace w1z = trace w @ [EvRead src (int n)]" "reports w1z = reports w"
        "next_fd w1z = next_fd w" "errno w1z = 0"
        by (simp_all add: w1z_def w1_def)
      have unfold: "copy_loop env src dst srcfd dstfd w =
          (case sys_write env dstfd buf w1z of (written, w2) \<Rightarrow>
             if written \<noteq> int n then
               (let w3 = (if errno w2 = 0 then w2\<lparr>errno := ENOSPC\<rparr> else w2) in
                Some (False, ereport (CouldNotWrite dst (errno w3)) w3))
             else copy_loop env src dst srcfd dstfd w2)"
        using False lbuf by (subst copy_loop.simps) (simp add: rd buf_def[symmetric] w1z_def)
      have split_c: "drop so c = buf @ drop (so + n) c"
        unfolding buf_def by (metis append_take_drop_id drop_drop add.commute)
      have twist: "\<And>a b. (fds w)(srcfd \<mapsto> (src, a), dstfd \<mapsto> (dst, b)) = (fds w)(dstfd \<mapsto> (dst, b), srcfd \<mapsto> (src, a))"
        using nfd by (simp add: fun_upd_twist)
      show ?thesis
      proof (cases "injected (env (clock w1))")
        case (Some e)
        define w2 where "w2 = failing (EvWrite dst n (-1)) e w1z"
        have wr: "sys_write env dstfd buf w1z = (-1, w2)"
          by (simp add: sys_write_def w1z Some lbuf w2_def)
        have e0: "e \<noteq> 0" using Some by (rule injected_nonzero)
        define w' where "w' = ereport (CouldNotWrite dst e) w2"
        have "copy_loop env src dst srcfd dstfd w = Some (False, w')"
          unfolding unfold wr using e0 by (simp add: w2_def w'_def)
        moreover have "loop_post src dst srcfd dstfd c so d w False w'"
          by (rule loop_postI[where x="[]" and y="drop so c" and a="so + n" and b="length d"
                and evs="[EvRead src (int n), EvWrite dst n (-1)]"])
             (use e0 fd in \<open>simp_all add: w'_def w2_def w1zs idem fun_upd_idem\<close>)
        ultimately show ?thesis by blast
      next
        case None
        define d' where "d' = (case env (clock w1) of Partial k \<Rightarrow> if k < length buf then take k buf else buf | _ \<Rightarrow> buf)"
        define w2 where "w2 = syscall (EvWrite dst n (int (length d')))
                        (w1z\<lparr>files := (files w1z)(dst \<mapsto> Reg (d @ d')),
                             fds := (fds w1z)(dstfd \<mapsto> (dst, length d + length d'))\<rparr>)"
        have wr: "sys_write env dstfd buf w1z = (int (length d'), w2)"
          by (simp add: sys_write_def w1z None lbuf w2_def d'_def Let_def)
        have d'_cases: "d' = buf \<or> (\<exists>k<n. d' = take k buf)"
          by (auto simp: d'_def lbuf split: outcome.splits)
        have pre: "\<exists>y. buf = d' @ y"
          using d'_cases by (metis append_Nil2 append_take_drop_id)
        have w2s: "files w2 = (files w)(dst \<mapsto> Reg (d @ d'))"
          "fds w2 = (fds w)(srcfd \<mapsto> (src, so + n), dstfd \<mapsto> (dst, length d + length d'))"
          "next_fd w2 = next_fd w" "reports w2 = reports w" "errno w2 = 0"
          "trace w2 = trace w @ [EvRead src (int n), EvWrite dst n (int (length d'))]"
          by (simp_all add: w2_def w1zs)
        show ?thesis
        proof (cases "length d' = n")
          case False
          define w' where "w' = ereport (CouldNotWrite dst ENOSPC) (w2\<lparr>errno := ENOSPC\<rparr>)"
          have "copy_loop env src dst srcfd dstfd w = Some (False, w')"
            unfolding unfold wr using False by (simp add: w2s w'_def)
          moreover have "loop_post src dst srcfd dstfd c so d w False w'"
          proof -
            from pre obtain y where y: "buf = d' @ y" by blast
            have 1: "drop so c = d' @ (y @ drop (so + n) c)" using split_c y by simp
            show ?thesis
              by (rule loop_postI[where x="d'" and y="y @ drop (so + n) c" and a="so + n" and b="length d + length d'"
                    and evs="[EvRead src (int n), EvWrite dst n (int (length d'))]"])
                 (use 1 False in \<open>simp_all add: w'_def w2s ENOSPC_def\<close>)
          qed
          ultimately show ?thesis by blast
        next
          case True
          then have d'buf: "d' = buf" using d'_cases lbuf by auto
          have step: "copy_loop env src dst srcfd dstfd w = copy_loop env src dst srcfd dstfd w2"
            unfolding unfold wr using True by simp
          have m: "length c - (so + n) < length c - so"
            using \<open>n \<noteq> 0\<close> nle by simp
          have w2f: "fds w2 srcfd = Some (src, so + n)" "fds w2 dstfd = Some (dst, length (d @ buf))"
            "files w2 src = Some (Reg c)" "files w2 dst = Some (Reg (d @ buf))"
            using ne nfd cs by (simp_all add: w2s d'buf lbuf)
          from less.hyps[OF m ne nfd w2f]
          obtain ok w' where res: "copy_loop env src dst srcfd dstfd w2 = Some (ok, w')"
            and post: "loop_post src dst srcfd dstfd c (so + n) (d @ buf) w2 ok w'"
            by blast
          have "loop_post src dst srcfd dstfd c so d w ok w'"
          proof -
            from post obtain x y a b evs where
              xy: "drop (so + n) c = x @ y" "ok \<longrightarrow> y = []" "files w' = (files w2)(dst \<mapsto> Reg ((d @ buf) @ x))"
              and ab: "fds w' = (fds w2)(srcfd \<mapsto> (src, a), dstfd \<mapsto> (dst, b))"
              and nf: "next_fd w' = next_fd w2"
              and ev: "trace w' = trace w2 @ evs" "evs \<noteq> []" "\<forall>e\<in>set evs. rw_event src dst e"
                "\<forall>e\<in>set (butlast evs). \<not> short_write e"
                "short_write (last evs) \<longrightarrow>
                   \<not> ok \<and> reports w' = reports w2 @ [CouldNotWrite dst (errno w')] \<and> errno w' \<noteq> 0 \<and>
                   (0 \<le> returned (last evs) \<longrightarrow> errno w' = ENOSPC)"
              and rp: "if ok then reports w' = reports w2
                       else \<exists>e. reports w' = reports w2 @ [CouldNotRead src e] \<or> reports w' = reports w2 @ [CouldNotWrite dst e]"
              unfolding loop_post_def by blast
            let ?evs = "[EvRead src (int n), EvWrite dst n (int n)] @ evs"
            have B: "fds w' = (fds w)(srcfd \<mapsto> (src, a), dstfd \<mapsto> (dst, b))"
              using ab nfd by (simp add: w2s fun_upd_twist)
            have C: "trace w' = trace w @ ?evs" using ev(1) True by (simp add: w2s)
            have E: "\<forall>e\<in>set (butlast ?evs). \<not> short_write e"
              using ev(2,4) by (simp add: butlast_append)
            have F: "last ?evs = last evs" using ev(2) by simp
            show ?thesis
            proof (rule loop_postI[where x="buf @ x" and y=y and a=a and b=b and evs="?evs"])
              show "drop so c = (buf @ x) @ y" using xy split_c by simp
              show "ok \<longrightarrow> y = []" by (rule xy)
              show "files w' = (files w)(dst \<mapsto> Reg (d @ buf @ x))" using xy by (simp add: w2s)
              show "fds w' = (fds w)(srcfd \<mapsto> (src, a), dstfd \<mapsto> (dst, b))" by (rule B)
              show "next_fd w' = next_fd w" by (simp add: nf w2s)
              show "trace w' = trace w @ ?evs" by (rule C)
              show "?evs \<noteq> []" by simp
              show "\<forall>e\<in>set ?evs. rw_event src dst e" using ev(3) by simp
              show "\<forall>e\<in>set (butlast ?evs). \<not> short_write e" by (rule E)
              show "short_write (last ?evs) \<longrightarrow>
                     \<not> ok \<and> reports w' = reports w @ [CouldNotWrite dst (errno w')] \<and> errno w' \<noteq> 0 \<and>
                     (0 \<le> returned (last ?evs) \<longrightarrow> errno w' = ENOSPC)"
                unfolding F using ev(5) unfolding w2s(4) .
              show "if ok then reports w' = reports w
                    else \<exists>e. reports w' = reports w @ [CouldNotRead src e] \<or> reports w' = reports w @ [CouldNotWrite dst e]"
                using rp unfolding w2s(4) .
            qed
          qed
          with res step show ?thesis by simp
        qed
      qed
    qed
  qed
qed

lemma copy_loop_dir:
  assumes "fds w srcfd = Some (src, so)" "files w src = Some Dir"
  shows "copy_loop env src dst srcfd dstfd w =
           Some (False, ereport (CouldNotRead src EISDIR) (failing (EvRead src (-1)) EISDIR w))"
  by (subst copy_loop.simps) (simp add: sys_read_def assms)

lemma rw_event_copy_event: "rw_event src dst e \<Longrightarrow> copy_event src dst e"
  by (cases e) auto

lemma copy_post_failI:
  assumes "\<forall>p. p \<noteq> dst \<longrightarrow> files w' p = files w p"
    and "files w' dst = files w dst \<or> (\<exists>x. files w' dst = Some (Reg x))"
    and "trace w' = trace w @ evs" "\<exists>r evs'. evs = EvOpen src False r # evs'"
    and "\<forall>e\<in>set evs. copy_event src dst e"
    and "\<forall>e\<in>set (butlast evs). \<not> short_write e"
    and "short_write (last evs) \<longrightarrow>
           reports w' = reports w @ [CouldNotWrite dst (errno w')] \<and> errno w' \<noteq> 0 \<and>
           (0 \<le> returned (last evs) \<longrightarrow> errno w' = ENOSPC)"
    and "reports w' = reports w @ [m]" "copy_failure src dst m"
  shows "copy_post src dst w False w'"
  unfolding copy_post_def using assms by auto

lemma copy_file_total:
  "\<exists>ok w'. copy_file env src dst w = Some (ok, w') \<and> copy_post src dst w ok w'"
proof -
  define fd1 where "fd1 = int (next_fd w)"
  define fd2 where "fd2 = int (Suc (next_fd w))"
  have nfd: "fd1 \<noteq> fd2" "0 \<le> fd1" "0 \<le> fd2" by (simp_all add: fd1_def fd2_def)
  consider (fault1) e where "injected (env (clock w)) = Some e"
    | (missing) "injected (env (clock w)) = None" "files w src = None"
    | (opened) n where "injected (env (clock w)) = None" "files w src = Some n"
    by (cases "injected (env (clock w))"; cases "files w src") auto
  then show ?thesis
  proof cases
    case fault1
    define w' where "w' = ereport (CouldNotOpen src e) (failing (EvOpen src False (-1)) e w)"
    have "copy_file env src dst w = Some (False, w')"
      by (simp add: copy_file_def OpenTransientFile_def Let_def fault1 w'_def)
    moreover have "copy_post src dst w False w'"
      by (rule copy_post_failI[where evs="[EvOpen src False (-1)]" and m="CouldNotOpen src e"])
         (simp_all add: w'_def)
    ultimately show ?thesis by blast
  next
    case missing
    define w' where "w' = ereport (CouldNotOpen src ENOENT) (failing (EvOpen src False (-1)) ENOENT w)"
    have "copy_file env src dst w = Some (False, w')"
      by (simp add: copy_file_def OpenTransientFile_def Let_def missing w'_def)
    moreover have "copy_post src dst w False w'"
      by (rule copy_post_failI[where evs="[EvOpen src False (-1)]" and m="CouldNotOpen src ENOENT"])
         (simp_all add: w'_def)
    ultimately show ?thesis by blast
  next
    case opened
    define w1 where "w1 = syscall (EvOpen src False fd1)
                            (w\<lparr>fds := (fds w)(fd1 \<mapsto> (src, 0)), next_fd := Suc (next_fd w)\<rparr>)"
    have o1: "OpenTransientFile env src O_RDONLY w = (fd1, w1)"
      by (simp add: OpenTransientFile_def Let_def opened w1_def fd1_def)
    have w1s: "files w1 = files w" "fds w1 = (fds w)(fd1 \<mapsto> (src, 0))" "next_fd w1 = Suc (next_fd w)"
      "trace w1 = trace w @ [EvOpen src False fd1]" "reports w1 = reports w"
      by (simp_all add: w1_def)
    have unfold1: "copy_file env src dst w =
        (case OpenTransientFile env dst O_RDWR_CREAT_EXCL w1 of (dstfd, w2) \<Rightarrow>
             if dstfd < 0 then Some (False, ereport (CouldNotOpen dst (errno w2)) w2)
             else
               (case copy_loop env src dst fd1 dstfd w2 of
                  None \<Rightarrow> None
                | Some (completed, w3) \<Rightarrow>
                    if \<not> completed then Some (False, w3)
                    else
                      (case CloseTransientFile env dstfd w3 of (r1, w4) \<Rightarrow>
                         if r1 \<noteq> 0 then Some (False, ereport (CouldNotClose dst (errno w4)) w4)
                         else
                           (case CloseTransientFile env fd1 w4 of (r2, w5) \<Rightarrow>
                              if r2 \<noteq> 0 then Some (False, ereport (CouldNotClose src (errno w5)) w5)
                              else Some (True, w5)))))"
      using nfd by (simp add: copy_file_def o1)
    consider (fault2) e where "injected (env (clock w1)) = Some e"
      | (exists) "injected (env (clock w1)) = None" "files w dst \<noteq> None"
      | (created) "injected (env (clock w1)) = None" "files w dst = None"
      by (cases "injected (env (clock w1))") auto
    then show ?thesis
    proof cases
      case fault2
      define w' where "w' = ereport (CouldNotOpen dst e) (failing (EvOpen dst True (-1)) e w1)"
      have "copy_file env src dst w = Some (False, w')"
        unfolding unfold1 by (simp add: OpenTransientFile_def Let_def fault2 w'_def)
      moreover have "copy_post src dst w False w'"
        by (rule copy_post_failI[where evs="[EvOpen src False fd1, EvOpen dst True (-1)]" and m="CouldNotOpen dst e"])
           (simp_all add: w'_def w1s)
      ultimately show ?thesis by blast
    next
      case exists
      define w' where "w' = ereport (CouldNotOpen dst EEXIST) (failing (EvOpen dst True (-1)) EEXIST w1)"
      from exists obtain n' where "files w1 dst = Some n'" by (auto simp: w1s)
      then have "copy_file env src dst w = Some (False, w')"
        unfolding unfold1 by (simp add: OpenTransientFile_def Let_def exists w'_def)
      moreover have "copy_post src dst w False w'"
        by (rule copy_post_failI[where evs="[EvOpen src False fd1, EvOpen dst True (-1)]" and m="CouldNotOpen dst EEXIST"])
           (simp_all add: w'_def w1s)
      ultimately show ?thesis by blast
    next
      case created
      have ne: "src \<noteq> dst" using created opened by auto
      define w2 where "w2 = syscall (EvOpen dst True fd2)
                         (w1\<lparr>files := (files w1)(dst \<mapsto> Reg []),
                            fds := (fds w1)(fd2 \<mapsto> (dst, 0)),
                            next_fd := Suc (next_fd w1)\<rparr>)"
      have o2: "OpenTransientFile env dst O_RDWR_CREAT_EXCL w1 = (fd2, w2)"
        by (simp add: OpenTransientFile_def Let_def created w1s w2_def fd2_def)
      have w2s: "files w2 = (files w)(dst \<mapsto> Reg [])" "fds w2 = (fds w)(fd1 \<mapsto> (src, 0), fd2 \<mapsto> (dst, 0))"
        "trace w2 = trace w @ [EvOpen src False fd1, EvOpen dst True fd2]" "reports w2 = reports w"
        by (simp_all add: w2_def w1s)
      have w2f: "fds w2 fd1 = Some (src, 0)" "fds w2 fd2 = Some (dst, length ([]::byte list))"
        "files w2 src = Some n" "files w2 dst = Some (Reg [])"
        using nfd ne opened by (simp_all add: w2s)
      have unfold2: "copy_file env src dst w =
               (case copy_loop env src dst fd1 fd2 w2 of
                  None \<Rightarrow> None
                | Some (completed, w3) \<Rightarrow>
                    if \<not> completed then Some (False, w3)
                    else
                      (case CloseTransientFile env fd2 w3 of (r1, w4) \<Rightarrow>
                         if r1 \<noteq> 0 then Some (False, ereport (CouldNotClose dst (errno w4)) w4)
                         else
                           (case CloseTransientFile env fd1 w4 of (r2, w5) \<Rightarrow>
                              if r2 \<noteq> 0 then Some (False, ereport (CouldNotClose src (errno w5)) w5)
                              else Some (True, w5))))"
        unfolding unfold1 o2 using nfd by simp
      show ?thesis
      proof (cases n)
        case Dir
        define w' where "w' = ereport (CouldNotRead src EISDIR) (failing (EvRead src (-1)) EISDIR w2)"
        have "copy_loop env src dst fd1 fd2 w2 = Some (False, w')"
          unfolding w'_def using w2f by (intro copy_loop_dir) (simp_all add: Dir)
        then have "copy_file env src dst w = Some (False, w')"
          unfolding unfold2 by simp
        moreover have "copy_post src dst w False w'"
          by (rule copy_post_failI[where evs="[EvOpen src False fd1, EvOpen dst True fd2, EvRead src (-1)]"
                and m="CouldNotRead src EISDIR"])
             (simp_all add: w'_def w2s)
        ultimately show ?thesis by blast
      next
        case (Reg c)
        from copy_loop_total[OF ne nfd(1) w2f(1,2) w2f(3)[unfolded Reg] w2f(4), of env]
        obtain ok3 w3 where l: "copy_loop env src dst fd1 fd2 w2 = Some (ok3, w3)"
          and post: "loop_post src dst fd1 fd2 c 0 [] w2 ok3 w3" by blast
        from post obtain x y a b rw where
          xy0: "drop 0 c = x @ y" "ok3 \<longrightarrow> y = []" "files w3 = (files w2)(dst \<mapsto> Reg ([] @ x))"
          and ab0: "fds w3 = (fds w2)(fd1 \<mapsto> (src, a), fd2 \<mapsto> (dst, b))"
          and ev0: "trace w3 = trace w2 @ rw" "rw \<noteq> []"
            "\<forall>e\<in>set rw. rw_event src dst e" "\<forall>e\<in>set (butlast rw). \<not> short_write e"
            "short_write (last rw) \<longrightarrow>
               \<not> ok3 \<and> reports w3 = reports w2 @ [CouldNotWrite dst (errno w3)] \<and> errno w3 \<noteq> 0 \<and>
               (0 \<le> returned (last rw) \<longrightarrow> errno w3 = ENOSPC)"
          and rp0: "if ok3 then reports w3 = reports w2
                   else \<exists>e. reports w3 = reports w2 @ [CouldNotRead src e] \<or> reports w3 = reports w2 @ [CouldNotWrite dst e]"
          unfolding loop_post_def by blast
        have xy: "c = x @ y" "ok3 \<longrightarrow> y = []" "files w3 = (files w)(dst \<mapsto> Reg x)"
          using xy0 by (simp_all add: w2s)
        have ab: "fds w3 = (fds w)(fd1 \<mapsto> (src, a), fd2 \<mapsto> (dst, b))"
          using ab0 nfd by (simp add: w2s fun_eq_iff)
        have ev: "trace w3 = trace w @ [EvOpen src False fd1, EvOpen dst True fd2] @ rw" "rw \<noteq> []"
            "\<forall>e\<in>set rw. rw_event src dst e" "\<forall>e\<in>set (butlast rw). \<not> short_write e"
            "short_write (last rw) \<longrightarrow>
               \<not> ok3 \<and> reports w3 = reports w @ [CouldNotWrite dst (errno w3)] \<and> errno w3 \<noteq> 0 \<and>
               (0 \<le> returned (last rw) \<longrightarrow> errno w3 = ENOSPC)"
          using ev0 unfolding w2s by simp_all
        have rp: "if ok3 then reports w3 = reports w
                   else \<exists>e. reports w3 = reports w @ [CouldNotRead src e] \<or> reports w3 = reports w @ [CouldNotWrite dst e]"
          using rp0 unfolding w2s .
        let ?pre = "[EvOpen src False fd1, EvOpen dst True fd2]"
        have frame3: "\<forall>p. p \<noteq> dst \<longrightarrow> files w3 p = files w p" by (simp add: xy)
        have cev: "\<forall>e\<in>set (?pre @ rw). copy_event src dst e"
          using ev(3) by (auto intro: rw_event_copy_event)
        show ?thesis
        proof (cases ok3)
          case False
          have "copy_file env src dst w = Some (False, w3)"
            unfolding unfold2 l using False by simp
          moreover have "copy_post src dst w False w3"
          proof -
            from rp False obtain m where m: "reports w3 = reports w @ [m]" "copy_failure src dst m"
              by auto
            show ?thesis
            proof (rule copy_post_failI[where evs="?pre @ rw" and m=m])
              show "\<forall>e\<in>set (butlast (?pre @ rw)). \<not> short_write e"
                using ev(2,4) by (simp add: butlast_append)
              show "short_write (last (?pre @ rw)) \<longrightarrow>
                      reports w3 = reports w @ [CouldNotWrite dst (errno w3)] \<and> errno w3 \<noteq> 0 \<and>
                      (0 \<le> returned (last (?pre @ rw)) \<longrightarrow> errno w3 = ENOSPC)"
                using ev(2,5) by simp
            qed (use frame3 ev cev m xy(3) in simp_all)
          qed
          ultimately show ?thesis by blast
        next
          case True
          with xy have cx: "x = c" by simp
          have ns: "\<forall>e\<in>set rw. \<not> short_write e"
          proof
            fix e assume "e \<in> set rw"
            then have "e \<in> set (butlast rw) \<or> e = last rw"
              using ev(2) by (metis append_butlast_last_id in_set_conv_decomp_first insert_iff list.set(2) rotate1.simps(2) set_rotate1)
            then show "\<not> short_write e" using ev(4,5) True by auto
          qed
          have rp3: "reports w3 = reports w" using rp True by simp
          have f3: "fds w3 fd2 = Some (dst, b)" "fds w3 fd1 = Some (src, a)"
            using nfd by (simp_all add: ab)
          have unfold3: "copy_file env src dst w =
                      (case CloseTransientFile env fd2 w3 of (r1, w4) \<Rightarrow>
                         if r1 \<noteq> 0 then Some (False, ereport (CouldNotClose dst (errno w4)) w4)
                         else
                           (case CloseTransientFile env fd1 w4 of (r2, w5) \<Rightarrow>
                              if r2 \<noteq> 0 then Some (False, ereport (CouldNotClose src (errno w5)) w5)
                              else Some (True, w5)))"
            unfolding unfold2 l using True by simp
          show ?thesis
          proof (cases "injected (env (clock w3))")
            case (Some e)
            define w' where "w' = ereport (CouldNotClose dst e)
                                    (failing (EvClose dst (-1)) e (w3\<lparr>fds := (fds w3)(fd2 := None)\<rparr>))"
            have "copy_file env src dst w = Some (False, w')"
              unfolding unfold3 by (simp add: CloseTransientFile_def f3 Some w'_def)
            moreover have "copy_post src dst w False w'"
            proof (rule copy_post_failI[where evs="?pre @ rw @ [EvClose dst (-1)]" and m="CouldNotClose dst e"])
              show "\<forall>e\<in>set (butlast (?pre @ rw @ [EvClose dst (-1)])). \<not> short_write e"
                using ns by (simp add: butlast_append)
            qed (use frame3 ev cev xy(3) in \<open>simp_all add: w'_def rp3\<close>)
            ultimately show ?thesis by blast
          next
            case None
            define w4 where "w4 = syscall (EvClose dst 0) (w3\<lparr>fds := (fds w3)(fd2 := None)\<rparr>)"
            have c1: "CloseTransientFile env fd2 w3 = (0, w4)"
              by (simp add: CloseTransientFile_def f3 None w4_def)
            have w4s: "files w4 = files w3" "fds w4 = (fds w3)(fd2 := None)" "reports w4 = reports w"
              "trace w4 = trace w @ ?pre @ rw @ [EvClose dst 0]"
              by (simp_all add: w4_def ev rp3)
            have f4: "fds w4 fd1 = Some (src, a)" using nfd f3 by (simp add: w4s)
            have unfold4: "copy_file env src dst w =
                           (case CloseTransientFile env fd1 w4 of (r2, w5) \<Rightarrow>
                              if r2 \<noteq> 0 then Some (False, ereport (CouldNotClose src (errno w5)) w5)
                              else Some (True, w5))"
              unfolding unfold3 c1 by simp
            show ?thesis
            proof (cases "injected (env (clock w4))")
              case (Some e)
              define w' where "w' = ereport (CouldNotClose src e)
                                      (failing (EvClose src (-1)) e (w4\<lparr>fds := (fds w4)(fd1 := None)\<rparr>))"
              have "copy_file env src dst w = Some (False, w')"
                unfolding unfold4 by (simp add: CloseTransientFile_def f4 Some w'_def)
              moreover have "copy_post src dst w False w'"
              proof (rule copy_post_failI[where evs="?pre @ rw @ [EvClose dst 0, EvClose src (-1)]" and m="CouldNotClose src e"])
                show "\<forall>e\<in>set (butlast (?pre @ rw @ [EvClose dst 0, EvClose src (-1)])). \<not> short_write e"
                  using ns by (simp add: butlast_append)
              qed (use frame3 ev cev xy(3) in \<open>simp_all add: w'_def w4s\<close>)
              ultimately show ?thesis by blast
            next
              case None
              define w5 where "w5 = syscall (EvClose src 0) (w4\<lparr>fds := (fds w4)(fd1 := None)\<rparr>)"
              have "copy_file env src dst w = Some (True, w5)"
                unfolding unfold4 by (simp add: CloseTransientFile_def f4 None w5_def)
              moreover have "copy_post src dst w True w5"
                unfolding copy_post_def
              proof (intro conjI)
                show "\<forall>p. p \<noteq> dst \<longrightarrow> files w5 p = files w p"
                  using frame3 by (simp add: w5_def w4s)
                show "files w5 dst = files w dst \<or> (\<exists>x. files w5 dst = Some (Reg x))"
                  by (simp add: w5_def w4s xy(3))
                show "\<exists>evs. trace w5 = trace w @ evs \<and> (\<exists>r evs'. evs = EvOpen src False r # evs') \<and>
                        (\<forall>e\<in>set evs. copy_event src dst e) \<and>
                        (\<forall>e\<in>set (butlast evs). \<not> short_write e) \<and>
                        (short_write (last evs) \<longrightarrow>
                           \<not> True \<and> reports w5 = reports w @ [CouldNotWrite dst (errno w5)] \<and> errno w5 \<noteq> 0 \<and>
                           (0 \<le> returned (last evs) \<longrightarrow> errno w5 = ENOSPC)) \<and>
                        (True \<longrightarrow> (\<exists>rw. evs = [EvOpen src False (int (next_fd w)), EvOpen dst True (int (Suc (next_fd w)))]
                               @ rw @ [EvClose dst 0, EvClose src 0] \<and>
                           (\<forall>e\<in>set rw. rw_event src dst e \<and> \<not> short_write e)))"
                  apply (rule exI[of _ "?pre @ rw @ [EvClose dst 0, EvClose src 0]"])
                  using ns cev ev(3) by (simp add: w5_def w4s butlast_append fd1_def fd2_def)
                show "if True then reports w5 = reports w \<and> src \<noteq> dst \<and> files w dst = None \<and>
                        (\<exists>c. files w src = Some (Reg c) \<and> files w5 dst = Some (Reg c)) \<and>
                        fds w5 (int (next_fd w)) = None \<and> fds w5 (int (Suc (next_fd w))) = None
                      else \<exists>m. reports w5 = reports w @ [m] \<and> copy_failure src dst m"
                  using ne created opened Reg cx nfd
                  by (simp add: w5_def w4s xy(3) fd1_def fd2_def)
              qed
              ultimately show ?thesis by blast
            qed
          qed
        qed
      qed
    qed
  qed
qed

lemma injected_other_facts: "injected_other oc = Some e \<Longrightarrow> e \<noteq> ENOENT \<and> e \<noteq> 0"
  by (auto simp: injected_other_def injected_def split: outcome.splits if_splits option.splits)

lemma built_paths:
  assumes "\<not> path_too_long path file"
  shows "destination_of path file = path @ ''/'' @ file"
    and "temp_of path = path @ ''/'' @ TEMP_FILE_NAME"
  using assms by (simp_all add: path_too_long_def destination_of_def temp_of_def snprintf_path_def)

lemma built_paths_distinct:
  assumes "\<not> path_too_long path file"
  shows "path \<noteq> temp_of path" "path \<noteq> destination_of path file"
    and "destination_of path file = temp_of path \<longleftrightarrow> file = TEMP_FILE_NAME"
  using built_paths[OF assms] by auto

lemma durable_rename_cases:
  obtains
    (flush_data_failed) e where "e \<noteq> 0"
      "durable_rename env old new w =
         (-1, ereport (CouldNotFsync old e) (failing (EvFlushData old (-1)) e w))"
  | (flush_meta_failed) e where "e \<noteq> 0"
      "durable_rename env old new w =
         (-1, ereport (CouldNotFsync old e)
                (failing (EvFlushMeta old (-1)) e (syscall (EvFlushData old 0) w)))"
  | (rename_failed) e where "e \<noteq> 0"
      "durable_rename env old new w =
         (-1, ereport (CouldNotRename old new e)
                (failing (EvRename old new (-1)) e
                   (syscall (EvFlushMeta old 0) (syscall (EvFlushData old 0) w))))"
  | (dir_flush_failed) e n w3 where "e \<noteq> 0" "files w old = Some n"
      "w3 = syscall (EvRename old new 0)
              ((syscall (EvFlushMeta old 0) (syscall (EvFlushData old 0) w))
                 \<lparr>files := renamed old new n (files w)\<rparr>)"
      "durable_rename env old new w =
         (-1, ereport (CouldNotFsync (parent_directory new) e)
                (failing (EvFlushDir (parent_directory new) (-1)) e w3))"
  | (renamed) n w3 where "files w old = Some n"
      "w3 = syscall (EvRename old new 0)
              ((syscall (EvFlushMeta old 0) (syscall (EvFlushData old 0) w))
                 \<lparr>files := renamed old new n (files w)\<rparr>)"
      "durable_rename env old new w = (0, syscall (EvFlushDir (parent_directory new) 0) w3)"
proof -
  have z: "ENOENT \<noteq> 0" "EISDIR \<noteq> 0" by (simp_all add: ENOENT_def EISDIR_def)
  show ?thesis
  proof (cases "injected (env (clock w))")
    case (Some e)
    have "durable_rename env old new w =
            (-1, ereport (CouldNotFsync old e) (failing (EvFlushData old (-1)) e w))"
      by (simp add: durable_rename_def sys_flush_def Some)
    then show ?thesis
      using flush_data_failed[of e] injected_nonzero[OF Some] by blast
  next
    case i1: None
    show ?thesis
    proof (cases "files w old")
      case None
      have "durable_rename env old new w =
              (-1, ereport (CouldNotFsync old ENOENT) (failing (EvFlushData old (-1)) ENOENT w))"
        by (simp add: durable_rename_def sys_flush_def i1 None)
      then show ?thesis
        using flush_data_failed[of ENOENT] z by blast
    next
      case fo: (Some n)
      define w1 where "w1 = syscall (EvFlushData old 0) w"
      have s1: "sys_flush env EvFlushData old w = (0, w1)"
        by (simp add: sys_flush_def i1 fo w1_def)
      have w1f: "files w1 old = Some n" "files w1 = files w" by (simp_all add: w1_def fo)
      show ?thesis
      proof (cases "injected (env (clock w1))")
        case (Some e)
        have s2: "sys_flush env EvFlushMeta old w1 = (-1, failing (EvFlushMeta old (-1)) e w1)"
          by (simp add: sys_flush_def Some)
        have "durable_rename env old new w =
                (-1, ereport (CouldNotFsync old e) (failing (EvFlushMeta old (-1)) e w1))"
          by (simp add: durable_rename_def s1 s2)
        then show ?thesis
          using flush_meta_failed[of e] injected_nonzero[OF Some] unfolding w1_def by blast
      next
        case i2: None
        define w2 where "w2 = syscall (EvFlushMeta old 0) w1"
        have s2: "sys_flush env EvFlushMeta old w1 = (0, w2)"
          by (simp add: sys_flush_def i2 w1f(1) w2_def)
        have w2f: "files w2 old = Some n" "files w2 = files w" by (simp_all add: w2_def w1f(2) fo)
        show ?thesis
        proof (cases "injected (env (clock w2))")
          case (Some e)
          have s3: "sys_rename env old new w2 = (-1, failing (EvRename old new (-1)) e w2)"
            by (simp add: sys_rename_def Some)
          have "durable_rename env old new w =
                  (-1, ereport (CouldNotRename old new e) (failing (EvRename old new (-1)) e w2))"
            by (simp add: durable_rename_def s1 s2 s3)
          then show ?thesis
            using rename_failed[of e] injected_nonzero[OF Some] unfolding w2_def w1_def by blast
        next
          case i3: None
          show ?thesis
          proof (cases "old \<noteq> new \<and> files w new = Some Dir \<and> n \<noteq> Dir")
            case True
            have s3: "sys_rename env old new w2 = (-1, failing (EvRename old new (-1)) EISDIR w2)"
              using True by (simp add: sys_rename_def i3 w2f(2) fo)
            have "durable_rename env old new w =
                    (-1, ereport (CouldNotRename old new EISDIR) (failing (EvRename old new (-1)) EISDIR w2))"
              by (simp add: durable_rename_def s1 s2 s3)
            then show ?thesis
              using rename_failed[of EISDIR] z unfolding w2_def w1_def by blast
          next
            case False
            define w3 where "w3 = syscall (EvRename old new 0) (w2\<lparr>files := renamed old new n (files w)\<rparr>)"
            have s3: "sys_rename env old new w2 = (0, w3)"
              using False by (auto simp: sys_rename_def i3 w2f(2) fo w3_def renamed_def)
            have w3eq: "w3 = syscall (EvRename old new 0)
              ((syscall (EvFlushMeta old 0) (syscall (EvFlushData old 0) w))
                 \<lparr>files := renamed old new n (files w)\<rparr>)"
              by (simp add: w3_def w2_def w1_def)
            show ?thesis
            proof (cases "injected (env (clock w3))")
              case (Some e)
              have "durable_rename env old new w =
                      (-1, ereport (CouldNotFsync (parent_directory new) e)
                              (failing (EvFlushDir (parent_directory new) (-1)) e w3))"
                by (simp add: durable_rename_def s1 s2 s3 sys_flush_dir_def Some)
              then show ?thesis
                using dir_flush_failed[of e n w3] injected_nonzero[OF Some] \<open>files w old = Some n\<close> w3eq
                by blast
            next
              case None
              have "durable_rename env old new w = (0, syscall (EvFlushDir (parent_directory new) 0) w3)"
                by (simp add: durable_rename_def s1 s2 s3 sys_flush_dir_def None)
              then show ?thesis
                using renamed[of n w3] \<open>files w old = Some n\<close> w3eq by blast
            qed
          qed
        qed
      qed
    qed
  qed
qed

lemma PG_archive_cases:
  obtains
    (unconfigured) "ad = None \<or> ad = Some []"
      "PG_archive env ad path file w = Some (False, ereport NotSpecified w)"
  | (too_long) "ad \<noteq> None" "ad \<noteq> Some []" "path_too_long path file"
      "PG_archive env ad path file w = Some (False, ereport PathTooLong w)"
  | (conflict) "ad \<noteq> None" "ad \<noteq> Some []" "\<not> path_too_long path file"
      "injected_other (env (clock w)) = None" "files w (destination_of path file) \<noteq> None"
      "PG_archive env ad path file w =
         Some (False, ereport (AlreadyExists (destination_of path file))
                        (syscall (EvStat (destination_of path file) 0) w))"
  | (stat_failed) e where "ad \<noteq> None" "ad \<noteq> Some []" "\<not> path_too_long path file"
      "injected_other (env (clock w)) = Some e"
      "PG_archive env ad path file w =
         Some (False, ereport (CouldNotStat (destination_of path file) e)
                        (failing (EvStat (destination_of path file) (-1)) e w))"
  | (unlink_failed) e where "ad \<noteq> None" "ad \<noteq> Some []" "\<not> path_too_long path file"
      "injected_other (env (clock w)) = None" "files w (destination_of path file) = None"
      "e \<noteq> ENOENT"
      "injected_other (env (Suc (clock w))) = Some e \<or>
       (injected_other (env (Suc (clock w))) = None \<and> files w (temp_of path) = Some Dir \<and> e = EISDIR)"
      "PG_archive env ad path file w =
         Some (False, ereport (CouldNotUnlink (temp_of path) e)
                        (failing (EvUnlink (temp_of path) (-1)) e
                           (failing (EvStat (destination_of path file) (-1)) ENOENT w)))"
  | (copy_failed) w2 w3 where "ad \<noteq> None" "ad \<noteq> Some []" "\<not> path_too_long path file"
      "injected_other (env (clock w)) = None" "files w (destination_of path file) = None"
      "injected_other (env (Suc (clock w))) = None"
      "cleared (destination_of path file) (temp_of path) w w2"
      "copy_post path (temp_of path) w2 False w3"
      "PG_archive env ad path file w = Some (False, w3)"
  | (copied) w2 w3 where "ad \<noteq> None" "ad \<noteq> Some []" "\<not> path_too_long path file"
      "injected_other (env (clock w)) = None" "files w (destination_of path file) = None"
      "injected_other (env (Suc (clock w))) = None"
      "cleared (destination_of path file) (temp_of path) w w2"
      "copy_post path (temp_of path) w2 True w3"
      "PG_archive env ad path file w =
         Some (fst (durable_rename env (temp_of path) (destination_of path file) w3) = 0,
               snd (durable_rename env (temp_of path) (destination_of path file) w3))"
proof -
  let ?dest = "destination_of path file" and ?temp = "temp_of path"
  show ?thesis
  proof (cases "ad = None \<or> ad = Some []")
    case True
    then have "PG_archive env ad path file w = Some (False, ereport NotSpecified w)"
      by (auto simp: PG_archive_def)
    with True show ?thesis by (rule unconfigured)
  next
    case conf: False
    then have c1: "ad \<noteq> None" and c2: "ad \<noteq> Some []" by auto
    show ?thesis
    proof (cases "path_too_long path file")
      case True
      with conf have "PG_archive env ad path file w = Some (False, ereport PathTooLong w)"
        by (auto simp: PG_archive_def)
      then show ?thesis by (rule too_long[OF c1 c2 True])
    next
      case fits: False
      have unfold1: "PG_archive env ad path file w =
         (case sys_stat env ?dest w of (r1, isdir, w1) \<Rightarrow>
           if r1 = 0 then Some (False, ereport (AlreadyExists ?dest) w1)
           else if errno w1 \<noteq> ENOENT then Some (False, ereport (CouldNotStat ?dest (errno w1)) w1)
           else
             (case sys_unlink env ?temp w1 of (r2, w2) \<Rightarrow>
                if r2 \<noteq> 0 \<and> errno w2 \<noteq> ENOENT then
                  Some (False, ereport (CouldNotUnlink ?temp (errno w2)) w2)
                else
                  (case copy_file env path ?temp w2 of
                     None \<Rightarrow> None
                   | Some (copied, w3) \<Rightarrow>
                       if \<not> copied then Some (False, w3)
                       else
                         (case durable_rename env ?temp ?dest w3 of (r3, w4) \<Rightarrow>
                            Some (r3 = 0, w4)))))"
        using conf fits by (auto simp: PG_archive_def Let_def)
      show ?thesis
      proof (cases "injected_other (env (clock w))")
        case (Some e)
        have "sys_stat env ?dest w = (-1, False, failing (EvStat ?dest (-1)) e w)"
          by (simp add: sys_stat_def Some)
        then have "PG_archive env ad path file w =
            Some (False, ereport (CouldNotStat ?dest e) (failing (EvStat ?dest (-1)) e w))"
          unfolding unfold1 using injected_other_facts[OF Some] by simp
        then show ?thesis by (rule stat_failed[OF c1 c2 fits Some])
      next
        case i0: None
        show ?thesis
        proof (cases "files w ?dest")
          case (Some n)
          have "sys_stat env ?dest w = (0, n = Dir, syscall (EvStat ?dest 0) w)"
            by (simp add: sys_stat_def i0 Some)
          then have "PG_archive env ad path file w =
              Some (False, ereport (AlreadyExists ?dest) (syscall (EvStat ?dest 0) w))"
            unfolding unfold1 by simp
          moreover have "files w ?dest \<noteq> None" using Some by simp
          ultimately show ?thesis using conflict[OF c1 c2 fits i0] by blast
        next
          case absent: None
          define w1 where "w1 = failing (EvStat ?dest (-1)) ENOENT w"
          have st: "sys_stat env ?dest w = (-1, False, w1)"
            by (simp add: sys_stat_def i0 absent w1_def)
          have w1s: "files w1 = files w" "errno w1 = ENOENT" "trace w1 = trace w @ [EvStat ?dest (-1)]"
            "reports w1 = reports w" "next_fd w1 = next_fd w" "fds w1 = fds w"
            by (simp_all add: w1_def)
          have ck: "clock w1 = Suc (clock w)" by (simp add: w1_def)
          have unfold2: "PG_archive env ad path file w =
             (case sys_unlink env ?temp w1 of (r2, w2) \<Rightarrow>
                if r2 \<noteq> 0 \<and> errno w2 \<noteq> ENOENT then
                  Some (False, ereport (CouldNotUnlink ?temp (errno w2)) w2)
                else
                  (case copy_file env path ?temp w2 of
                     None \<Rightarrow> None
                   | Some (copied, w3) \<Rightarrow>
                       if \<not> copied then Some (False, w3)
                       else
                         (case durable_rename env ?temp ?dest w3 of (r3, w4) \<Rightarrow>
                            Some (r3 = 0, w4))))"
            unfolding unfold1 st by (simp add: w1s)
          have after: "\<exists>w3 ok. (ok \<longrightarrow> PG_archive env ad path file w =
                 Some (fst (durable_rename env ?temp ?dest w3) = 0, snd (durable_rename env ?temp ?dest w3))) \<and>
               (\<not> ok \<longrightarrow> PG_archive env ad path file w = Some (False, w3)) \<and>
               copy_post path ?temp w2 ok w3"
            if u: "PG_archive env ad path file w =
                  (case copy_file env path ?temp w2 of
                     None \<Rightarrow> None
                   | Some (copied, w3) \<Rightarrow>
                       if \<not> copied then Some (False, w3)
                       else
                         (case durable_rename env ?temp ?dest w3 of (r3, w4) \<Rightarrow>
                            Some (r3 = 0, w4)))" for w2
          proof -
            from copy_file_total[of env path ?temp w2]
            obtain ok w3 where c: "copy_file env path ?temp w2 = Some (ok, w3)"
              and p: "copy_post path ?temp w2 ok w3" by blast
            show ?thesis
              apply (rule exI[of _ w3], rule exI[of _ ok])
              using p by (simp add: u c split: prod.splits)
          qed
          have finish: thesis
            if u: "PG_archive env ad path file w =
                  (case copy_file env path ?temp w2 of
                     None \<Rightarrow> None
                   | Some (copied, w3) \<Rightarrow>
                       if \<not> copied then Some (False, w3)
                       else
                         (case durable_rename env ?temp ?dest w3 of (r3, w4) \<Rightarrow>
                            Some (r3 = 0, w4)))"
              and cl: "cleared ?dest ?temp w w2"
              and i1': "injected_other (env (Suc (clock w))) = None" for w2
          proof -
            from after[OF u] obtain w3 ok where
              a: "ok \<longrightarrow> PG_archive env ad path file w =
                 Some (fst (durable_rename env ?temp ?dest w3) = 0, snd (durable_rename env ?temp ?dest w3))"
              "\<not> ok \<longrightarrow> PG_archive env ad path file w = Some (False, w3)"
              "copy_post path ?temp w2 ok w3" by blast
            show thesis
            proof (cases ok)
              case True
              with a show ?thesis using copied[OF c1 c2 fits i0 absent i1' cl, of w3] by simp
            next
              case False
              with a show ?thesis using copy_failed[OF c1 c2 fits i0 absent i1' cl, of w3] by simp
            qed
          qed
          show ?thesis
          proof (cases "injected_other (env (clock w1))")
            case (Some e)
            have "sys_unlink env ?temp w1 = (-1, failing (EvUnlink ?temp (-1)) e w1)"
              by (simp add: sys_unlink_def Some)
            then have "PG_archive env ad path file w =
                Some (False, ereport (CouldNotUnlink ?temp e) (failing (EvUnlink ?temp (-1)) e w1))"
              unfolding unfold2 using injected_other_facts[OF Some] by simp
            then show ?thesis
              using unlink_failed[OF c1 c2 fits i0 absent, of e] injected_other_facts[OF Some]
                Some[unfolded ck]
              unfolding w1_def by blast
          next
            case i1: None
            show ?thesis
            proof (cases "files w ?temp")
              case None
              define w2 where "w2 = failing (EvUnlink ?temp (-1)) ENOENT w1"
              have "sys_unlink env ?temp w1 = (-1, w2)"
                by (simp add: sys_unlink_def i1 w1s(1) None w2_def)
              then have u: "PG_archive env ad path file w =
                  (case copy_file env path ?temp w2 of
                     None \<Rightarrow> None
                   | Some (copied, w3) \<Rightarrow>
                       if \<not> copied then Some (False, w3)
                       else
                         (case durable_rename env ?temp ?dest w3 of (r3, w4) \<Rightarrow>
                            Some (r3 = 0, w4)))"
                unfolding unfold2 by (simp add: w2_def)
              have "cleared ?dest ?temp w w2"
                using None by (auto simp: cleared_def w2_def w1s)
              with u show ?thesis using i1[unfolded ck] by (rule finish)
            next
              case (Some n)
              show ?thesis
              proof (cases n)
                case Dir
                have "sys_unlink env ?temp w1 = (-1, failing (EvUnlink ?temp (-1)) EISDIR w1)"
                  by (simp add: sys_unlink_def i1 w1s(1) Some Dir)
                then have "PG_archive env ad path file w =
                    Some (False, ereport (CouldNotUnlink ?temp EISDIR) (failing (EvUnlink ?temp (-1)) EISDIR w1))"
                  unfolding unfold2 by (simp add: EISDIR_def ENOENT_def)
                moreover have "EISDIR \<noteq> ENOENT" by (simp add: EISDIR_def ENOENT_def)
                ultimately show ?thesis
                  using unlink_failed[OF c1 c2 fits i0 absent, of EISDIR] i1[unfolded ck] Some Dir
                  unfolding w1_def by blast
              next
                case (Reg c)
                define w2 where "w2 = syscall (EvUnlink ?temp 0) (w1\<lparr>files := (files w1)(?temp := None)\<rparr>)"
                have "sys_unlink env ?temp w1 = (0, w2)"
                  by (simp add: sys_unlink_def i1 w1s(1) Some Reg w2_def)
                then have u: "PG_archive env ad path file w =
                    (case copy_file env path ?temp w2 of
                       None \<Rightarrow> None
                     | Some (copied, w3) \<Rightarrow>
                         if \<not> copied then Some (False, w3)
                         else
                           (case durable_rename env ?temp ?dest w3 of (r3, w4) \<Rightarrow>
                              Some (r3 = 0, w4)))"
                  unfolding unfold2 by simp
                have "cleared ?dest ?temp w w2"
                  using Some Reg by (auto simp: cleared_def w2_def w1s)
                with u show ?thesis using i1[unfolded ck] by (rule finish)
              qed
            qed
          qed
        qed
      qed
    qed
  qed
qed




lemma copy_post_first:
  assumes "copy_post src dst w ok w'"
  shows "\<exists>r evs. trace w' = trace w @ EvOpen src False r # evs"
  using assms unfolding copy_post_def by auto

lemma durable_rename_trace:
  "\<exists>evs. trace (snd (durable_rename env old new w)) = trace w @ evs"
  by (cases rule: durable_rename_cases[of env old new w]) auto

lemma copy_post_ok:
  assumes "copy_post src dst w True w'"
  shows "\<exists>rw c. trace w' = trace w @ [EvOpen src False (int (next_fd w)), EvOpen dst True (int (Suc (next_fd w)))]
                              @ rw @ [EvClose dst 0, EvClose src 0] \<and>
           (\<forall>e\<in>set rw. rw_event src dst e \<and> \<not> short_write e) \<and>
           reports w' = reports w \<and> src \<noteq> dst \<and> files w dst = None \<and>
           files w src = Some (Reg c) \<and> files w' = (files w)(dst \<mapsto> Reg c)"
proof -
  from assms obtain evs rw c where
    t: "trace w' = trace w @ evs"
    and e: "evs = [EvOpen src False (int (next_fd w)), EvOpen dst True (int (Suc (next_fd w)))]
                               @ rw @ [EvClose dst 0, EvClose src 0]"
    and rw: "\<forall>e\<in>set rw. rw_event src dst e \<and> \<not> short_write e"
    and r: "reports w' = reports w" "src \<noteq> dst" "files w dst = None"
    and c: "files w src = Some (Reg c)" "files w' dst = Some (Reg c)"
    and fr: "\<forall>p. p \<noteq> dst \<longrightarrow> files w' p = files w p"
    unfolding copy_post_def by auto
  have "files w' = (files w)(dst \<mapsto> Reg c)"
    using fr c by (auto simp: fun_eq_iff)
  with t e rw r c show ?thesis by blast
qed

lemma copy_post_fail:
  assumes "copy_post src dst w False w'"
  shows "\<exists>evs m. trace w' = trace w @ evs \<and> (\<forall>e\<in>set evs. copy_event src dst e) \<and>
           (\<forall>e\<in>set (butlast evs). \<not> short_write e) \<and>
           (short_write (last evs) \<longrightarrow>
              reports w' = reports w @ [CouldNotWrite dst (errno w')] \<and> errno w' \<noteq> 0 \<and>
              (0 \<le> returned (last evs) \<longrightarrow> errno w' = ENOSPC)) \<and>
           reports w' = reports w @ [m] \<and> copy_failure src dst m \<and>
           (\<forall>p. p \<noteq> dst \<longrightarrow> files w' p = files w p) \<and>
           (files w' dst = files w dst \<or> (\<exists>x. files w' dst = Some (Reg x)))"
  using assms unfolding copy_post_def by auto

lemma copied_state:
  assumes fits: "\<not> path_too_long path file"
    and cl: "cleared (destination_of path file) (temp_of path) w w2"
    and cp: "copy_post path (temp_of path) w2 True w3"
  shows "\<exists>c r fd1 fd2 rw.
           files w path = Some (Reg c) \<and> files w3 = (files w)(temp_of path \<mapsto> Reg c) \<and>
           trace w3 = trace w @ [EvStat (destination_of path file) (-1), EvUnlink (temp_of path) r,
                                EvOpen path False fd1, EvOpen (temp_of path) True fd2]
                        @ rw @ [EvClose (temp_of path) 0, EvClose path 0] \<and>
           (\<forall>e\<in>set rw. rw_event path (temp_of path) e \<and> \<not> short_write e) \<and>
           reports w3 = reports w"
proof -
  from copy_post_ok[OF cp] obtain rw c where
    t3: "trace w3 = trace w2 @ [EvOpen path False (int (next_fd w2)), EvOpen (temp_of path) True (int (Suc (next_fd w2)))]
                              @ rw @ [EvClose (temp_of path) 0, EvClose path 0]"
    and rw: "\<forall>e\<in>set rw. rw_event path (temp_of path) e \<and> \<not> short_write e"
    and r3: "reports w3 = reports w2"
    and c: "files w2 path = Some (Reg c)" "files w3 = (files w2)(temp_of path \<mapsto> Reg c)"
    by blast
  from cl obtain r where f2: "files w2 = (files w)(temp_of path := None)"
    and t2: "trace w2 = trace w @ [EvStat (destination_of path file) (-1), EvUnlink (temp_of path) r]"
    and r2: "reports w2 = reports w"
    unfolding cleared_def by blast
  have ne: "path \<noteq> temp_of path" using built_paths_distinct(1)[OF fits] .
  have 1: "files w path = Some (Reg c)" using c(1) ne by (simp add: f2)
  have 2: "files w3 = (files w)(temp_of path \<mapsto> Reg c)" by (simp add: c(2) f2)
  have 3: "trace w3 = trace w @ [EvStat (destination_of path file) (-1), EvUnlink (temp_of path) r,
                                EvOpen path False (int (next_fd w2)), EvOpen (temp_of path) True (int (Suc (next_fd w2)))]
                        @ rw @ [EvClose (temp_of path) 0, EvClose path 0]"
    by (simp add: t3 t2)
  from 1 2 3 rw r3 r2 show ?thesis by metis
qed


lemma copy_event_facts:
  assumes "copy_event src dst e"
  shows "\<not> is_rename e" "\<not> commit_event e" "dst \<noteq> p \<Longrightarrow> \<not> writes_directly p e"
  using assms by (cases e; auto)+

lemma in_set_butlast_or_last: "e \<in> set xs \<Longrightarrow> e \<in> set (butlast xs) \<or> e = last xs"
  by (induction xs) (auto split: if_splits)


text \<open>No run changes a file other than the temporary file and the destination it builds.\<close>

lemma archive_frame:
  assumes "PG_archive env ad path file w = Some (ok, w')"
    and "p \<noteq> destination_of path file" "p \<noteq> temp_of path"
  shows "files w' p = files w p"
proof (cases rule: PG_archive_cases[of ad env path "file" w])
  case (copy_failed w2 w3)
  from copy_failed(7) have f2: "files w2 = (files w)(temp_of path := None)" by (simp add: cleared_def)
  from copy_post_fail[OF copy_failed(8)] have "files w3 p = files w2 p" using assms(3) by blast
  with assms copy_failed(9) f2 show ?thesis by simp
next
  case (copied w2 w3)
  from copied_state[OF copied(3,7,8)] obtain c where
    f3: "files w3 = (files w)(temp_of path \<mapsto> Reg c)" by blast
  from assms(1) copied(9) have w': "w' = snd (durable_rename env (temp_of path) (destination_of path file) w3)"
    by simp
  show ?thesis
    by (cases rule: durable_rename_cases[of env "temp_of path" "destination_of path file" w3])
       (use assms(2,3) in \<open>simp_all add: w' f3 renamed_def\<close>)
qed (use assms in auto)

text \<open>Every run returns: the loop ends, whatever the environment does.\<close>

lemma PG_archive_returns: "\<exists>ok w'. PG_archive env ad path file w = Some (ok, w')"
  by (cases rule: PG_archive_cases[of ad env path "file" w]) auto

lemma transfer_failure_simps2 [simp]:
  "\<not> transfer_failure src temp dest NotSpecified"
  "\<not> transfer_failure src temp dest PathTooLong"
  "\<not> transfer_failure src temp dest (AlreadyExists p)"
  "\<not> transfer_failure src temp dest (CouldNotStat p e)"
  "\<not> transfer_failure src temp dest (CouldNotUnlink p e)"
  "\<not> transfer_failure src temp dest (CouldNotFsync p e)"
  "\<not> transfer_failure src temp dest DirectoryDoesNotExist"
  by simp_all


lemmas run_defs = PG_archive_def copy_file_def copy_loop.simps durable_rename_def
  check_archive_directory_def
  sys_stat_def sys_unlink_def sys_read_def sys_write_def sys_rename_def sys_flush_def sys_flush_dir_def
  OpenTransientFile_def CloseTransientFile_def injected_def injected_other_def granted_def store_at_def
  syscall_def failing_def ereport_def destination_of_def temp_of_def path_too_long_def snprintf_path_def
  parent_directory_def MAXPGPATH_def TEMP_FILE_NAME_def COPY_BUF_SIZE_def
  ENOENT_def EBADF_def EEXIST_def ENOTDIR_def EISDIR_def ENOSPC_def
  succeeded_def failed_def file_after_def fd_after_def trace_after_def reports_after_def world_after_def
  no_faults_def fault_at_def one_file_def two_files_def with_dir_def hello_world_def unlink_refusal_def Let_def

subsection \<open>Counting bits\<close>

lemma popcnt_shift: "a < 2 ^ k \<Longrightarrow> popcnt (a + 2 ^ k * x) = popcnt a + popcnt x"
proof (induction k arbitrary: a)
  case 0
  then show ?case by (simp add: popcnt.simps[of 0])
next
  case (Suc k)
  show ?case
  proof (cases "a + 2 ^ Suc k * x = 0")
    case True
    then show ?thesis by (simp add: popcnt.simps[of 0])
  next
    case False
    have m: "(a + 2 ^ Suc k * x) mod 2 = a mod 2" by (simp add: mult.assoc)
    have d: "(a + 2 ^ Suc k * x) div 2 = a div 2 + 2 ^ k * x" by (simp add: mult.assoc)
    have lt: "a div 2 < 2 ^ k" using Suc.prems by simp
    have "popcnt (a + 2 ^ Suc k * x) = a mod 2 + popcnt (a div 2 + 2 ^ k * x)"
      using False by (subst popcnt.simps) (simp only: m d if_False)
    also have "\<dots> = a mod 2 + (popcnt (a div 2) + popcnt x)"
      by (simp only: Suc.IH[OF lt])
    also have "\<dots> = popcnt a + popcnt x"
      by (cases "a = 0") (simp_all add: popcnt.simps[of a] popcnt.simps[of 0])
    finally show ?thesis .
  qed
qed

lemma popcnt_le_value: "popcnt (le_value bs) = popcount_bytes bs"
proof (induction bs)
  case Nil
  then show ?case by (simp add: popcount_bytes_def popcnt.simps[of 0])
next
  case (Cons b bs)
  have "unat b < 2 ^ 8" using unsigned_less[of b, where 'a=nat] by simp
  from popcnt_shift[OF this, of "le_value bs"] Cons show ?case
    by (simp add: popcount_bytes_def)
qed

lemma popcount_bytes_append [simp]: "popcount_bytes (xs @ ys) = popcount_bytes xs + popcount_bytes ys"
  by (simp add: popcount_bytes_def)

lemma lanes_popcount:
  "sum_list (map popcnt (lanes_of n bs)) = popcount_bytes (take (8 * n) bs)"
proof (induction n arbitrary: bs)
  case 0
  then show ?case by (simp add: popcount_bytes_def)
next
  case (Suc n)
  have "take (8 * Suc n) bs = take 8 bs @ take (8 * n) (drop 8 bs)"
    by (metis add.commute mult_Suc_right take_add)
  then show ?case by (simp add: Suc popcnt_le_value)
qed

lemma length_lanes_of [simp]: "length (lanes_of n bs) = n"
  by (induction n arbitrary: bs) auto

lemma popcount_bytes_le: "popcount_bytes bs \<le> 8 * length bs"
proof -
  have p: "popcnt n \<le> k" if "n < 2 ^ k" for n k
    using that
  proof (induction k arbitrary: n)
    case 0
    then show ?case by (simp add: popcnt.simps[of 0])
  next
    case (Suc k)
    have "n div 2 < 2 ^ k" using Suc.prems by simp
    from Suc.IH[OF this] have "n mod 2 + popcnt (n div 2) \<le> Suc k"
      by (simp add: add_mono_thms_linordered_semiring(1) le_Suc_eq) arith
    then show ?case
      by (cases "n = 0") (simp_all add: popcnt.simps[of n] popcnt.simps[of 0])
  qed
  have "popcnt (unat b) \<le> 8" for b :: byte
    using p[of "unat b" 8] unsigned_less[of b, where 'a=nat] by simp
  then show ?thesis
    unfolding popcount_bytes_def by (induction bs) (auto simp: add_le_mono)
qed


lemma add_epi64_sum:
  assumes "length a = length b" "sum_list a + sum_list b < 2 ^ 64"
  shows "sum_list (mm512_add_epi64 a b) = sum_list a + sum_list b"
  using assms unfolding mm512_add_epi64_def
proof (induction a b rule: list_induct2)
  case Nil
  then show ?case by simp
next
  case (Cons x xs y ys)
  then have "x + y < 2 ^ 64" "sum_list xs + sum_list ys < 2 ^ 64" by simp_all
  with Cons.IH show ?case by simp
qed

lemma length_add_epi64 [simp]: "length (mm512_add_epi64 a b) = min (length a) (length b)"
  by (simp add: mm512_add_epi64_def)

lemma loaded_popcount:
  assumes "64 \<le> length buf"
  shows "sum_list (mm512_popcnt_epi64 (mm512_loadu_si512 buf)) = popcount_bytes (take 64 buf)"
    and "length (mm512_popcnt_epi64 (mm512_loadu_si512 buf)) = 8"
  using assms lanes_popcount[of 8 "take 64 buf"]
  by (simp_all add: mm512_popcnt_epi64_def mm512_loadu_si512_def)

lemma to_int32_id: "- (2 ^ 31) \<le> x \<Longrightarrow> x < 2 ^ 31 \<Longrightarrow> to_int32 x = x"
  by (simp add: to_int32_def)

lemma avx512_loop_correct:
  assumes "0 \<le> bytes" "bytes < 2 ^ 31" "nat bytes \<le> length buf" "length accum = 8"
    and "sum_list accum + 8 * nat bytes < 2 ^ 64"
  shows "\<exists>buf' bytes' accum'. avx512_loop buf bytes accum = Some (buf', bytes', accum') \<and>
           0 \<le> bytes' \<and> bytes' < 64 \<and> nat bytes' \<le> length buf' \<and>
           sum_list accum' + popcount_bytes (take (nat bytes') buf') =
             sum_list accum + popcount_bytes (take (nat bytes) buf) \<and>
           sum_list accum' \<le> sum_list accum + 8 * nat bytes"
  using assms
proof (induction buf bytes accum rule: avx512_loop.induct)
  case (1 buf bytes accum)
  show ?case
  proof (cases "64 \<le> bytes")
    case False
    with "1.prems" show ?thesis
      by (subst avx512_loop.simps) simp
  next
    case True
    with "1.prems" have len: "64 \<le> length buf" by simp
    let ?v = "mm512_popcnt_epi64 (mm512_loadu_si512 buf)"
    let ?acc = "mm512_add_epi64 accum ?v"
    have b': "to_int32 (bytes - 64) = bytes - 64"
      using True "1.prems"(2) by (intro to_int32_id) simp_all
    have pv: "sum_list ?v = popcount_bytes (take 64 buf)" "length ?v = 8"
      using loaded_popcount[OF len] by simp_all
    have le64: "popcount_bytes (take 64 buf) \<le> 8 * 64"
      using popcount_bytes_le[of "take 64 buf"] len by simp
    have nb: "nat bytes = 64 + nat (bytes - 64)" using True by simp
    have small: "sum_list accum + sum_list ?v < 2 ^ 64"
      using "1.prems"(5) le64 nb by (simp add: pv)
    have sacc: "sum_list ?acc = sum_list accum + popcount_bytes (take 64 buf)"
      using add_epi64_sum[of accum ?v] small "1.prems"(4) pv by simp
    have unfold: "avx512_loop buf bytes accum = avx512_loop (drop 64 buf) (bytes - 64) ?acc"
      using True len by (subst avx512_loop.simps) (simp add: b')
    have "\<exists>buf' bytes' accum'. avx512_loop (drop 64 buf) (to_int32 (bytes - 64)) ?acc = Some (buf', bytes', accum') \<and>
           0 \<le> bytes' \<and> bytes' < 64 \<and> nat bytes' \<le> length buf' \<and>
           sum_list accum' + popcount_bytes (take (nat bytes') buf') =
             sum_list ?acc + popcount_bytes (take (nat (to_int32 (bytes - 64))) (drop 64 buf)) \<and>
           sum_list accum' \<le> sum_list ?acc + 8 * nat (to_int32 (bytes - 64))"
    proof (rule "1.IH")
      show "bytes < 0 \<or> 64 \<le> bytes" using True by simp
      show "\<not> length buf < 64" using len by simp
      show "0 \<le> to_int32 (bytes - 64)" "to_int32 (bytes - 64) < 2 ^ 31"
        using True "1.prems"(2) by (simp_all add: b')
      show "nat (to_int32 (bytes - 64)) \<le> length (drop 64 buf)"
        using "1.prems"(3) True by (simp add: b')
      show "length ?acc = 8" using "1.prems"(4) pv by simp
      show "sum_list ?acc + 8 * nat (to_int32 (bytes - 64)) < 2 ^ 64"
        using "1.prems"(5) le64 nb by (simp add: sacc b')
    qed
    then obtain buf' bytes' accum' where
      r: "avx512_loop (drop 64 buf) (bytes - 64) ?acc = Some (buf', bytes', accum')"
      and p: "0 \<le> bytes'" "bytes' < 64" "nat bytes' \<le> length buf'"
        "sum_list accum' + popcount_bytes (take (nat bytes') buf') =
             sum_list ?acc + popcount_bytes (take (nat (bytes - 64)) (drop 64 buf))"
        "sum_list accum' \<le> sum_list ?acc + 8 * nat (bytes - 64)"
      unfolding b' by blast
    have split: "take (nat bytes) buf = take 64 buf @ take (nat (bytes - 64)) (drop 64 buf)"
      using nb by (metis take_add)
    have "sum_list accum' + popcount_bytes (take (nat bytes') buf') =
            sum_list accum + popcount_bytes (take (nat bytes) buf)"
      using p(4) by (simp add: sacc split)
    moreover have "sum_list accum' \<le> sum_list accum + 8 * nat bytes"
      using p(5) le64 nb by (simp add: sacc)
    ultimately show ?thesis using r p(1-3) unfolding unfold by blast
  qed
qed

section \<open>The claims\<close>

subsection \<open>C1: where the copy ends up\<close>

text \<open>
  C1 at the scenario of the specification: the source holds the bytes \<^verbatim>\<open>hello world\<close>, the
  directory setting is \<^verbatim>\<open>/tmp/arch\<close> and the name is \<^verbatim>\<open>000000010000000000000001\<close>.
  \<open>PG_archive\<close> builds the destination from its argument \<open>path\<close>, the source file, and not
  from the directory setting. When no call fails, the run reports success, no file exists at
  \<^verbatim>\<open>/tmp/arch/000000010000000000000001\<close>, and the eleven bytes are at the path made of the
  source path and the name. When \<open>stat\<close> refuses that path because it lies below a regular
  file (\<open>ENOTDIR\<close>), the run fails at its first call; again nothing is at
  \<^verbatim>\<open>/tmp/arch/000000010000000000000001\<close>.
\<close>

theorem copy_lands_under_source_path:
  "succeeded (PG_archive no_faults (Some ''/tmp/arch'') ''pg_wal/000000010000000000000001''
                ''000000010000000000000001'' (one_file ''pg_wal/000000010000000000000001'' hello_world)) \<and>
   file_after (PG_archive no_faults (Some ''/tmp/arch'') ''pg_wal/000000010000000000000001''
                ''000000010000000000000001'' (one_file ''pg_wal/000000010000000000000001'' hello_world))
     ''/tmp/arch/000000010000000000000001'' = None \<and>
   file_after (PG_archive no_faults (Some ''/tmp/arch'') ''pg_wal/000000010000000000000001''
                ''000000010000000000000001'' (one_file ''pg_wal/000000010000000000000001'' hello_world))
     ''pg_wal/000000010000000000000001/000000010000000000000001'' = Some (Reg hello_world) \<and>
   failed (PG_archive (fault_at 0 (Fail ENOTDIR)) (Some ''/tmp/arch'') ''pg_wal/000000010000000000000001''
                ''000000010000000000000001'' (one_file ''pg_wal/000000010000000000000001'' hello_world)) \<and>
   reports_after (PG_archive (fault_at 0 (Fail ENOTDIR)) (Some ''/tmp/arch'') ''pg_wal/000000010000000000000001''
                ''000000010000000000000001'' (one_file ''pg_wal/000000010000000000000001'' hello_world))
     = [CouldNotStat ''pg_wal/000000010000000000000001/000000010000000000000001'' ENOTDIR] \<and>
   file_after (PG_archive (fault_at 0 (Fail ENOTDIR)) (Some ''/tmp/arch'') ''pg_wal/000000010000000000000001''
                ''000000010000000000000001'' (one_file ''pg_wal/000000010000000000000001'' hello_world))
     ''/tmp/arch/000000010000000000000001'' = None"
  by (simp add: run_defs)

subsection \<open>C2: no final artifact after a failed transfer\<close>




subsection \<open>C3: the final name appears only by the rename\<close>




subsection \<open>C4: an existing final artifact is never overwritten\<close>




subsection \<open>C5: descriptors left open by a failed copy\<close>

text \<open>
  C5 at four failures of the copy phase. When \<open>path\<close> names a directory, no call is made to
  fail and yet the first read fails with \<open>EISDIR\<close>: \<open>PG_archive\<close> fails and both
  descriptor 3, the source, and descriptor 4, the temporary file, are still open. When the
  destination cannot be opened (error 13), it fails and descriptor 3 is still open. When a
  read fails (error 5), and when a write is short (4 of 11 bytes), it fails and both
  descriptors are still open. After a successful run both are closed.
\<close>

theorem failed_copy_leaves_descriptors_open:
  "failed (PG_archive no_faults (Some ''/arch'') ''/wal'' ''seg'' (with_dir ''/wal'' (one_file ''/src'' hello_world))) \<and>
   reports_after (PG_archive no_faults (Some ''/arch'') ''/wal'' ''seg'' (with_dir ''/wal'' (one_file ''/src'' hello_world)))
     = [CouldNotRead ''/wal'' EISDIR] \<and>
   fd_after (PG_archive no_faults (Some ''/arch'') ''/wal'' ''seg'' (with_dir ''/wal'' (one_file ''/src'' hello_world))) 3
     = Some (''/wal'', 0) \<and>
   fd_after (PG_archive no_faults (Some ''/arch'') ''/wal'' ''seg'' (with_dir ''/wal'' (one_file ''/src'' hello_world))) 4
     = Some (''/wal/archtemp'', 0) \<and>
   failed (PG_archive (fault_at 3 (Fail 13)) (Some ''/arch'') ''/src'' ''seg'' (one_file ''/src'' hello_world)) \<and>
   reports_after (PG_archive (fault_at 3 (Fail 13)) (Some ''/arch'') ''/src'' ''seg'' (one_file ''/src'' hello_world))
     = [CouldNotOpen ''/src/archtemp'' 13] \<and>
   fd_after (PG_archive (fault_at 3 (Fail 13)) (Some ''/arch'') ''/src'' ''seg'' (one_file ''/src'' hello_world)) 3
     = Some (''/src'', 0) \<and>
   failed (PG_archive (fault_at 4 (Fail 5)) (Some ''/arch'') ''/src'' ''seg'' (one_file ''/src'' hello_world)) \<and>
   reports_after (PG_archive (fault_at 4 (Fail 5)) (Some ''/arch'') ''/src'' ''seg'' (one_file ''/src'' hello_world))
     = [CouldNotRead ''/src'' 5] \<and>
   fd_after (PG_archive (fault_at 4 (Fail 5)) (Some ''/arch'') ''/src'' ''seg'' (one_file ''/src'' hello_world)) 3
     = Some (''/src'', 0) \<and>
   fd_after (PG_archive (fault_at 4 (Fail 5)) (Some ''/arch'') ''/src'' ''seg'' (one_file ''/src'' hello_world)) 4
     = Some (''/src/archtemp'', 0) \<and>
   failed (PG_archive (fault_at 5 (Partial 4)) (Some ''/arch'') ''/src'' ''seg'' (one_file ''/src'' hello_world)) \<and>
   reports_after (PG_archive (fault_at 5 (Partial 4)) (Some ''/arch'') ''/src'' ''seg'' (one_file ''/src'' hello_world))
     = [CouldNotWrite ''/src/archtemp'' ENOSPC] \<and>
   fd_after (PG_archive (fault_at 5 (Partial 4)) (Some ''/arch'') ''/src'' ''seg'' (one_file ''/src'' hello_world)) 3
     = Some (''/src'', 11) \<and>
   fd_after (PG_archive (fault_at 5 (Partial 4)) (Some ''/arch'') ''/src'' ''seg'' (one_file ''/src'' hello_world)) 4
     = Some (''/src/archtemp'', 4) \<and>
   succeeded (PG_archive no_faults (Some ''/arch'') ''/src'' ''seg'' (one_file ''/src'' hello_world)) \<and>
   fd_after (PG_archive no_faults (Some ''/arch'') ''/src'' ''seg'' (one_file ''/src'' hello_world)) 3 = None \<and>
   fd_after (PG_archive no_faults (Some ''/arch'') ''/src'' ''seg'' (one_file ''/src'' hello_world)) 4 = None"
  by (simp add: run_defs)

subsection \<open>C6: the path-length check\<close>




subsection \<open>C7: a short write ends the transfer\<close>

text \<open>
  C7. Every run of \<open>PG_archive\<close> returns, and for every \<open>write\<close> of the run that returns
  anything but the number of bytes requested: the run fails; the write went to the temporary
  file and is the last call of the run, so that no flush and no rename is ever attempted; and
  the run reports ``could not write'' with a non-zero error number, which is \<open>ENOSPC\<close> when
  the write returned a byte count (it transferred fewer bytes and left \<open>errno\<close> unset).
\<close>

theorem short_write_is_fatal:
  "\<exists>ok w' evs. PG_archive env ad path file w = Some (ok, w') \<and> trace w' = trace w @ evs \<and>
     (\<forall>p n r. EvWrite p n r \<in> set evs \<and> r \<noteq> int n \<longrightarrow>
        \<not> ok \<and> p = temp_of path \<and> last evs = EvWrite p n r \<and> (\<forall>e\<in>set evs. \<not> commit_event e) \<and>
        (\<exists>e. reports w' = reports w @ [CouldNotWrite (temp_of path) e] \<and> e \<noteq> 0 \<and>
             (0 \<le> r \<longrightarrow> e = ENOSPC)))"
proof -
  let ?t = "temp_of path" and ?d = "destination_of path file"
  have I: ?thesis
    if "PG_archive env ad path file w = Some (ok, w')" "trace w' = trace w @ evs"
      "\<And>p n r. EvWrite p n r \<in> set evs \<Longrightarrow> r \<noteq> int n \<Longrightarrow>
        \<not> ok \<and> p = temp_of path \<and> last evs = EvWrite p n r \<and> (\<forall>e\<in>set evs. \<not> commit_event e) \<and>
        (\<exists>e. reports w' = reports w @ [CouldNotWrite (temp_of path) e] \<and> e \<noteq> 0 \<and>
             (0 \<le> r \<longrightarrow> e = ENOSPC))"
    for ok w' evs
    using that by blast
  show ?thesis
  proof (cases rule: PG_archive_cases[of ad env path "file" w])
    case unconfigured
    show ?thesis by (rule I[OF unconfigured(2), where evs="[]"]) simp_all
  next
    case too_long
    show ?thesis by (rule I[OF too_long(4), where evs="[]"]) simp_all
  next
    case conflict
    show ?thesis by (rule I[OF conflict(6), where evs="[EvStat ?d 0]"]) simp_all
  next
    case (stat_failed e)
    show ?thesis by (rule I[OF stat_failed(5), where evs="[EvStat ?d (-1)]"]) simp_all
  next
    case (unlink_failed e)
    show ?thesis by (rule I[OF unlink_failed(8), where evs="[EvStat ?d (-1), EvUnlink ?t (-1)]"]) simp_all
  next
    case (copy_failed w2 w3)
    from copy_failed(7) obtain r2 where t2: "trace w2 = trace w @ [EvStat ?d (-1), EvUnlink ?t r2]"
      and r2: "reports w2 = reports w"
      by (auto simp: cleared_def)
    from copy_post_fail[OF copy_failed(8)] obtain evs m where
      t3: "trace w3 = trace w2 @ evs" and ce: "\<forall>e\<in>set evs. copy_event path ?t e"
      and bl: "\<forall>e\<in>set (butlast evs). \<not> short_write e"
      and sw: "short_write (last evs) \<longrightarrow>
              reports w3 = reports w2 @ [CouldNotWrite ?t (errno w3)] \<and> errno w3 \<noteq> 0 \<and>
              (0 \<le> returned (last evs) \<longrightarrow> errno w3 = ENOSPC)"
      by blast
    let ?evs = "[EvStat ?d (-1), EvUnlink ?t r2] @ evs"
    show ?thesis
    proof (rule I[where evs="?evs"])
      show "PG_archive env ad path file w = Some (False, w3)" by (rule copy_failed(9))
      show "trace w3 = trace w @ ?evs" by (simp add: t3 t2)
    next
      fix p n r assume a: "EvWrite p n r \<in> set ?evs" "r \<noteq> int n"
      then have in_evs: "EvWrite p n r \<in> set evs" by simp
      have s: "short_write (EvWrite p n r)" using a(2) by simp
      from in_set_butlast_or_last[OF in_evs] bl s have l: "last evs = EvWrite p n r" by auto
      from in_evs have "evs \<noteq> []" by auto
      then have l': "last ?evs = EvWrite p n r" using l by simp
      have p: "p = ?t" using ce in_evs by fastforce
      have nc: "\<forall>e\<in>set ?evs. \<not> commit_event e"
        using ce copy_event_facts(2) by auto
      from sw s l have "reports w3 = reports w @ [CouldNotWrite ?t (errno w3)]" "errno w3 \<noteq> 0"
        "0 \<le> r \<longrightarrow> errno w3 = ENOSPC"
        by (simp_all add: r2)
      with l' p nc
      show "\<not> False \<and> p = temp_of path \<and> last ?evs = EvWrite p n r \<and> (\<forall>e\<in>set ?evs. \<not> commit_event e) \<and>
        (\<exists>e. reports w3 = reports w @ [CouldNotWrite (temp_of path) e] \<and> e \<noteq> 0 \<and>
             (0 \<le> r \<longrightarrow> e = ENOSPC))"
        by blast
    qed
  next
    case (copied w2 w3)
    from copied_state[OF copied(3,7,8)] obtain c r2 fd1 fd2 rw where
      t3: "trace w3 = trace w @ [EvStat ?d (-1), EvUnlink ?t r2, EvOpen path False fd1, EvOpen ?t True fd2]
                        @ rw @ [EvClose ?t 0, EvClose path 0]"
      and rw: "\<forall>e\<in>set rw. rw_event path ?t e \<and> \<not> short_write e"
      by blast
    obtain evs4 where t4: "trace (snd (durable_rename env ?t ?d w3)) = trace w3 @ evs4"
      and nw: "\<forall>e\<in>set evs4. \<not> short_write e"
      by (cases rule: durable_rename_cases[of env ?t ?d w3]) auto
    let ?evs = "[EvStat ?d (-1), EvUnlink ?t r2, EvOpen path False fd1, EvOpen ?t True fd2]
                        @ rw @ [EvClose ?t 0, EvClose path 0] @ evs4"
    have none: "\<forall>e\<in>set ?evs. \<not> short_write e" using rw nw by auto
    show ?thesis
    proof (rule I[where evs="?evs"])
      show "PG_archive env ad path file w =
              Some (fst (durable_rename env ?t ?d w3) = 0, snd (durable_rename env ?t ?d w3))"
        by (rule copied(9))
      show "trace (snd (durable_rename env ?t ?d w3)) = trace w @ ?evs" by (simp add: t4 t3)
    next
      fix p n r assume a: "EvWrite p n r \<in> set ?evs" "r \<noteq> int n"
      then have "short_write (EvWrite p n r)" by simp
      with none a(1) have False by blast
      then show "\<not> (fst (durable_rename env ?t ?d w3) = 0) \<and> p = temp_of path \<and> last ?evs = EvWrite p n r \<and>
        (\<forall>e\<in>set ?evs. \<not> commit_event e) \<and>
        (\<exists>e. reports (snd (durable_rename env ?t ?d w3)) = reports w @ [CouldNotWrite (temp_of path) e] \<and> e \<noteq> 0 \<and>
             (0 \<le> r \<longrightarrow> e = ENOSPC))" ..
    qed
  qed
qed

text \<open>A write that transfers 4 of the 11 bytes requested.\<close>

theorem short_write_is_fatal_witness:
  "EvWrite ''/src/archtemp'' 11 4
     \<in> set (trace_after (PG_archive (fault_at 5 (Partial 4)) (Some ''/arch'') ''/src'' ''seg'' (one_file ''/src'' hello_world))) \<and>
   (4::int) \<noteq> int 11 \<and>
   failed (PG_archive (fault_at 5 (Partial 4)) (Some ''/arch'') ''/src'' ''seg'' (one_file ''/src'' hello_world)) \<and>
   reports_after (PG_archive (fault_at 5 (Partial 4)) (Some ''/arch'') ''/src'' ''seg'' (one_file ''/src'' hello_world))
     = [CouldNotWrite ''/src/archtemp'' ENOSPC] \<and>
   last (trace_after (PG_archive (fault_at 5 (Partial 4)) (Some ''/arch'') ''/src'' ''seg'' (one_file ''/src'' hello_world)))
     = EvWrite ''/src/archtemp'' 11 4"
  using short_write_is_fatal[of "fault_at 5 (Partial 4)" "Some ''/arch''" "''/src''" "''seg''"
      "one_file ''/src'' hello_world"]
  by (simp add: run_defs)

subsection \<open>C8: the order of the precondition checks\<close>

text \<open>
  C8. Every run of \<open>PG_archive\<close> returns, and its checks come in this order. (1) With the
  directory setting unset or empty the run fails with the configuration warning and does
  nothing else. (2) Otherwise, when the path-length check fails, it fails with the
  path-too-long warning and does nothing else. (3) Otherwise its first call is \<open>stat\<close> on
  the final destination: when \<open>stat\<close> fails for a reason other than ``does not exist'' the
  run fails with the stat warning, and when the file exists it fails with the conflict
  warning; in both cases \<open>stat\<close> was the only call and no file changed. (4) Otherwise the
  second call is \<open>unlink\<close> on the temporary path: when that fails for a reason other than
  ``does not exist'' the run fails with the unlink warning, no further call is made and no
  file changed; otherwise the third call opens the source, which starts the copy.
\<close>

theorem precondition_checks_in_order:
  "\<exists>ok w'. PG_archive env ad path file w = Some (ok, w') \<and>
     (if ad = None \<or> ad = Some [] then
        \<not> ok \<and> w' = ereport NotSpecified w
      else if path_too_long path file then
        \<not> ok \<and> w' = ereport PathTooLong w
      else
        (\<exists>r evs. trace w' = trace w @ EvStat (destination_of path file) r # evs \<and>
           (case injected_other (env (clock w)) of
              Some e \<Rightarrow>
                \<not> ok \<and> evs = [] \<and> files w' = files w \<and>
                reports w' = reports w @ [CouldNotStat (destination_of path file) e]
            | None \<Rightarrow>
                if files w (destination_of path file) \<noteq> None then
                  \<not> ok \<and> r = 0 \<and> evs = [] \<and> files w' = files w \<and>
                  reports w' = reports w @ [AlreadyExists (destination_of path file)]
                else
                  (\<exists>r2 evs2. evs = EvUnlink (temp_of path) r2 # evs2 \<and>
                     (case unlink_refusal env (temp_of path) w of
                        Some e \<Rightarrow>
                          \<not> ok \<and> evs2 = [] \<and> files w' = files w \<and>
                          reports w' = reports w @ [CouldNotUnlink (temp_of path) e]
                      | None \<Rightarrow> (\<exists>r3 evs3. evs2 = EvOpen path False r3 # evs3))))))"
proof (cases rule: PG_archive_cases[of ad env path "file" w])
  case unconfigured
  then show ?thesis by (intro exI[of _ False] exI[of _ "ereport NotSpecified w"]) simp
next
  case too_long
  from too_long(1,2) obtain dir where c: "ad = Some dir" "dir \<noteq> []" by (cases ad) auto
  from c too_long(3,4) show ?thesis by (intro exI[of _ False] exI[of _ "ereport PathTooLong w"]) simp
next
  case conflict
  from conflict(1,2) obtain dir where c: "ad = Some dir" "dir \<noteq> []" by (cases ad) auto
  from c conflict(3-) show ?thesis
    by (intro exI[of _ False] exI[of _ "ereport (AlreadyExists (destination_of path file))
                        (syscall (EvStat (destination_of path file) 0) w)"]) auto
next
  case (stat_failed e)
  from stat_failed(1,2) obtain dir where c: "ad = Some dir" "dir \<noteq> []" by (cases ad) auto
  from c stat_failed(3-) show ?thesis
    by (intro exI[of _ False] exI[of _ "ereport (CouldNotStat (destination_of path file) e)
                        (failing (EvStat (destination_of path file) (-1)) e w)"]) simp
next
  case (unlink_failed e)
  have "unlink_refusal env (temp_of path) w = Some e"
    using unlink_failed(7) by (auto simp: unlink_refusal_def)
  moreover from unlink_failed(1,2) obtain dir where c: "ad = Some dir" "dir \<noteq> []" by (cases ad) auto
  ultimately show ?thesis using c unlink_failed(3-5,8)
    by (intro exI[of _ False] exI[of _ "ereport (CouldNotUnlink (temp_of path) e)
                        (failing (EvUnlink (temp_of path) (-1)) e
                           (failing (EvStat (destination_of path file) (-1)) ENOENT w))"]) simp
next
  case (copy_failed w2 w3)
  from copy_failed(7) obtain r2 where t2: "trace w2 = trace w @ [EvStat (destination_of path file) (-1), EvUnlink (temp_of path) r2]"
    and nd: "files w (temp_of path) \<noteq> Some Dir"
    by (auto simp: cleared_def)
  from copy_post_first[OF copy_failed(8)] obtain r3 evs3 where
    "trace w3 = trace w2 @ EvOpen path False r3 # evs3" by blast
  with t2 have t: "trace w3 = trace w @ EvStat (destination_of path file) (-1) # EvUnlink (temp_of path) r2 # EvOpen path False r3 # evs3"
    by simp
  have "unlink_refusal env (temp_of path) w = None"
    using copy_failed(6) nd by (simp add: unlink_refusal_def)
  moreover from copy_failed(1,2) obtain dir where c: "ad = Some dir" "dir \<noteq> []" by (cases ad) auto
  ultimately show ?thesis using c copy_failed(3-5,9) t
    by (intro exI[of _ False] exI[of _ w3]) simp
next
  case (copied w2 w3)
  from copied(7) obtain r2 where t2: "trace w2 = trace w @ [EvStat (destination_of path file) (-1), EvUnlink (temp_of path) r2]"
    and nd: "files w (temp_of path) \<noteq> Some Dir"
    by (auto simp: cleared_def)
  from copy_post_first[OF copied(8)] obtain r3 evs3 where
    t3: "trace w3 = trace w2 @ EvOpen path False r3 # evs3" by blast
  from durable_rename_trace[of env "temp_of path" "destination_of path file" w3]
  obtain evs4 where "trace (snd (durable_rename env (temp_of path) (destination_of path file) w3)) = trace w3 @ evs4"
    by blast
  with t2 t3 have t: "trace (snd (durable_rename env (temp_of path) (destination_of path file) w3)) =
      trace w @ EvStat (destination_of path file) (-1) # EvUnlink (temp_of path) r2 # EvOpen path False r3 # (evs3 @ evs4)"
    by simp
  have "unlink_refusal env (temp_of path) w = None"
    using copied(6) nd by (simp add: unlink_refusal_def)
  moreover from copied(1,2) obtain dir where c: "ad = Some dir" "dir \<noteq> []" by (cases ad) auto
  ultimately show ?thesis using c copied(3-5,9) t
    by (intro exI[of _ "fst (durable_rename env (temp_of path) (destination_of path file) w3) = 0"]
          exI[of _ "snd (durable_rename env (temp_of path) (destination_of path file) w3)"]) simp
qed

text \<open>The four checks, each failing in turn, and a run that gets past all of them.\<close>

theorem precondition_checks_in_order_witness:
  "reports_after (PG_archive no_faults (Some []) ''/src'' ''seg'' (one_file ''/src'' hello_world)) = [NotSpecified] \<and>
   trace_after (PG_archive no_faults (Some []) ''/src'' ''seg'' (one_file ''/src'' hello_world)) = [] \<and>
   reports_after (PG_archive (fault_at 0 (Fail 13)) (Some ''/arch'') ''/src'' ''seg'' (one_file ''/src'' hello_world))
     = [CouldNotStat ''/src/seg'' 13] \<and>
   trace_after (PG_archive (fault_at 0 (Fail 13)) (Some ''/arch'') ''/src'' ''seg'' (one_file ''/src'' hello_world))
     = [EvStat ''/src/seg'' (-1)] \<and>
   reports_after (PG_archive (fault_at 1 (Fail 13)) (Some ''/arch'') ''/src'' ''seg'' (one_file ''/src'' hello_world))
     = [CouldNotUnlink ''/src/archtemp'' 13] \<and>
   trace_after (PG_archive (fault_at 1 (Fail 13)) (Some ''/arch'') ''/src'' ''seg'' (one_file ''/src'' hello_world))
     = [EvStat ''/src/seg'' (-1), EvUnlink ''/src/archtemp'' (-1)] \<and>
   take 3 (trace_after (PG_archive no_faults (Some ''/arch'') ''/src'' ''seg''
                          (two_files ''/src'' hello_world ''/src/archtemp'' [1])))
     = [EvStat ''/src/seg'' (-1), EvUnlink ''/src/archtemp'' 0, EvOpen ''/src'' False 3]"
  using precondition_checks_in_order[of no_faults "Some []" "''/src''" "''seg''" "one_file ''/src'' hello_world"]
  by (simp add: run_defs)

subsection \<open>C9: the check hook accepts an unset directory\<close>

text \<open>
  C9. \<open>check_archive_directory\<close> accepts \<open>NULL\<close> and the empty string without any
  file-system call (the world is returned unchanged). A non-empty value is accepted exactly
  when \<open>stat\<close> succeeds on it and reports a directory, and rejected otherwise. So an
  unconfigured directory passes the check hook and is detected only by \<open>PG_archive\<close>, which
  then fails with the configuration warning.
\<close>

theorem check_hook_accepts_unset:
  "check_archive_directory env None w = (True, w) \<and>
   check_archive_directory env (Some []) w = (True, w) \<and>
   (v \<noteq> [] \<longrightarrow>
      fst (check_archive_directory env (Some v) w) =
        (injected_other (env (clock w)) = None \<and> files w v = Some Dir)) \<and>
   PG_archive env None path file w = Some (False, ereport NotSpecified w) \<and>
   PG_archive env (Some []) path file w = Some (False, ereport NotSpecified w)"
  by (auto simp: check_archive_directory_def sys_stat_def PG_archive_def split: option.splits)

text \<open>An existing directory is accepted, a regular file and a missing path are rejected.\<close>

theorem check_hook_accepts_unset_witness:
  "''/arch'' \<noteq> [] \<and>
   fst (check_archive_directory no_faults (Some ''/arch'') (with_dir ''/arch'' (one_file ''/src'' hello_world))) \<and>
   ''/src'' \<noteq> [] \<and>
   \<not> fst (check_archive_directory no_faults (Some ''/src'') (with_dir ''/arch'' (one_file ''/src'' hello_world))) \<and>
   \<not> fst (check_archive_directory no_faults (Some ''/none'') (with_dir ''/arch'' (one_file ''/src'' hello_world)))"
  using check_hook_accepts_unset[of no_faults "with_dir ''/arch'' (one_file ''/src'' hello_world)" "''/arch''"]
  by (simp add: run_defs)

subsection \<open>C10: the vectorized bit count\<close>

text \<open>
  C10. Let \<open>pg_popcount_fast\<close> return, for every buffer and every count of bytes within it,
  the number of 1-bits of that many leading bytes. Then for every buffer and every
  non-negative \<open>bytes\<close> (an \<^verbatim>\<open>int\<close>) no larger than the buffer, \<open>pg_popcount_avx512\<close> returns
  the number of 1-bits in the first \<open>bytes\<close> bytes of the buffer: the 64-byte blocks
  accumulated in the lanes plus the remainder counted by \<open>pg_popcount_fast\<close> equal the
  scalar count of the same bytes.
\<close>

theorem pg_popcount_avx512_counts_bits:
  assumes fast: "\<And>b n. 0 \<le> n \<Longrightarrow> nat n \<le> length b \<Longrightarrow> pg_popcount_fast b n = popcount_bytes (take (nat n) b)"
    and "0 \<le> bytes" "bytes < 2 ^ 31" "nat bytes \<le> length buf"
  shows "pg_popcount_avx512 pg_popcount_fast buf bytes = Some (popcount_bytes (take (nat bytes) buf))"
proof -
  have z: "length mm512_setzero_si512 = 8" "sum_list mm512_setzero_si512 = 0"
    by (simp_all add: mm512_setzero_si512_def)
  have "sum_list mm512_setzero_si512 + 8 * nat bytes < 2 ^ 64"
    using assms(2,3) by (simp add: z)
  from avx512_loop_correct[OF assms(2,3,4) z(1) this]
  obtain buf' bytes' accum' where
    r: "avx512_loop buf bytes mm512_setzero_si512 = Some (buf', bytes', accum')"
    and p: "0 \<le> bytes'" "nat bytes' \<le> length buf'"
      "sum_list accum' + popcount_bytes (take (nat bytes') buf') = popcount_bytes (take (nat bytes) buf)"
    by (auto simp: z)
  have le: "popcount_bytes (take (nat bytes) buf) \<le> 8 * nat bytes"
    using popcount_bytes_le[of "take (nat bytes) buf"] by simp
  have lt: "popcount_bytes (take (nat bytes) buf) < 2 ^ 64"
    using le assms(3) by simp
  have s: "sum_list accum' < 2 ^ 64" using p(3) lt by simp
  show ?thesis
    using p(3) lt s by (simp add: pg_popcount_avx512_def r mm512_reduce_add_epi64_def fast[OF p(1,2)])
qed



text \<open>Seventy bytes \<open>0, 1, ..., 69\<close>: one block of 64 and a remainder of 6.\<close>

theorem pg_popcount_avx512_counts_bits_witness:
  "(0::int) \<le> 70 \<and> (70::int) < 2 ^ 31 \<and> nat 70 \<le> length (map word_of_nat [0..<70] :: byte list) \<and>
   pg_popcount_avx512 scalar_popcount (map word_of_nat [0..<70]) 70 = Some 205"
proof -
  have c: "\<And>b n. 0 \<le> n \<Longrightarrow> nat n \<le> length b \<Longrightarrow> scalar_popcount b n = popcount_bytes (take (nat n) b)"
    by (simp add: scalar_popcount_def)
  have v: "popcount_bytes (take (nat 70) (map word_of_nat [0..<70] :: byte list)) = 205"
    by code_simp
  have h: "(0::int) \<le> 70" "(70::int) < 2 ^ 31" "nat 70 \<le> length (map word_of_nat [0..<70] :: byte list)"
    by simp_all
  from pg_popcount_avx512_counts_bits[of scalar_popcount 70 "map word_of_nat [0..<70]", OF c h] v h
  show ?thesis by simp
qed

end
